theory Spec2Isabelle
  imports Complex_Main "HOL-Library.Sublist" "HOL-Library.AList"
begin

text \<open>
  The decision pipeline of the support system: the four agents with their policy pass and
  the orchestrator that sequences them (\<open>agents/qudag.system.ts\<close>), and the swarm
  orchestrator with its question graph, execution order, graph walk and consensus score
  (the QuDAG integration layer). Logging and event emission have no effect on any returned
  value and are left out.
\<close>


section \<open>JavaScript values used by the agents\<close>

text \<open>
  Strings are character lists (one \<open>char\<close> per UTF-16 code unit of an ASCII text), objects
  with free-form keys are association lists in insertion order. A finite number is the real
  number that the IEEE double denotes; the confidences of the agents, which are compared
  with thresholds, are rounded as doubles are (subsection Numbers). The sentence scores of
  the summarizer and the numbers of the swarm orchestrator, whose consensus score takes a
  square root, are computed over the real numbers.
\<close>

definition lower_char :: "char \<Rightarrow> char" where
  "lower_char c =
     (let n = (of_char c :: nat) in if 65 \<le> n \<and> n \<le> 90 then char_of (n + 32) else c)"

definition toLowerCase :: "string \<Rightarrow> string" where
  "toLowerCase s = map lower_char s"

text \<open>\<open>text.includes(pat)\<close>: \<open>pat\<close> occurs as a contiguous piece of \<open>text\<close>.\<close>

definition str_includes :: "string \<Rightarrow> string \<Rightarrow> bool" where
  "str_includes text pat = sublist pat text"

definition is_space :: "char \<Rightarrow> bool" where
  "is_space c = ((of_char c :: nat) \<in> {9, 10, 11, 12, 13, 32})"

definition trim :: "string \<Rightarrow> string" where
  "trim s = rev (dropWhile is_space (rev (dropWhile is_space s)))"

text \<open>\<open>xs.join(sep)\<close>\<close>

fun join :: "string \<Rightarrow> string list \<Rightarrow> string" where
  "join sep [] = []"
| "join sep [x] = x"
| "join sep (x # y # ys) = x @ sep @ join sep (y # ys)"

datatype jsval = JStr string | JNum real | JBool bool | JStrs "string list"

fun truthy :: "jsval \<Rightarrow> bool" where
  "truthy (JStr s) = (s \<noteq> [])"
| "truthy (JNum r) = (r \<noteq> 0)"
| "truthy (JBool b) = b"
| "truthy (JStrs xs) = True"

type_synonym jsobject = "(string \<times> jsval) list"

text \<open>Object spread \<open>{ ...a, ...b }\<close>, where either operand may be \<open>undefined\<close>.\<close>

definition spread :: "jsobject option \<Rightarrow> jsobject option \<Rightarrow> jsobject" where
  "spread a b =
     fold (\<lambda>(k, v). AList.update k v) (case b of None \<Rightarrow> [] | Some o2 \<Rightarrow> o2)
       (case a of None \<Rightarrow> [] | Some o1 \<Rightarrow> o1)"


subsection \<open>Numbers\<close>

text \<open>
  Rounding a real number to the nearest double, ties to the even significand. The number is
  scaled by powers of two until its integer part has 53 bits (\<open>binade\<close>; the bound on the
  number of scaling steps covers the exponent range of doubles), rounded to an integer, and
  scaled back. Overflow to an infinity and the subnormal numbers are not modelled: every
  number that the agents compute lies between 0.1 and 1.
\<close>

definition round_half_even :: "real \<Rightarrow> int" where
  "round_half_even q =
     (let f = \<lfloor>q\<rfloor>; r = q - of_int f
      in if r < 1 / 2 then f else if r > 1 / 2 then f + 1 else if even f then f else f + 1)"

fun binade :: "nat \<Rightarrow> real \<Rightarrow> int \<Rightarrow> real \<times> int" where
  "binade 0 q e = (q, e)"
| "binade (Suc n) q e =
     (if q < 2 ^ 52 then binade n (2 * q) (e - 1)
      else if 2 ^ 53 \<le> q then binade n (q / 2) (e + 1)
      else (q, e))"

definition js_round :: "real \<Rightarrow> real" where
  "js_round x =
     (if x = 0 then 0
      else (case binade 2200 \<bar>x\<bar> 0 of
              (q, e) \<Rightarrow> sgn x * of_int (round_half_even q) * 2 powi e))"

text \<open>
  The number that a decimal literal of the source denotes, and the sum \<open>x + y\<close> of two
  numbers.
\<close>

definition js_lit :: "real \<Rightarrow> real" where
  "js_lit x = js_round x"

definition js_add :: "real \<Rightarrow> real \<Rightarrow> real" where
  "js_add x y = js_round (x + y)"

text \<open>
  The values of type \<open>number\<close>; every comparison with \<open>NaN\<close> is false.
\<close>

datatype js_number = Finite real | PosInfinity | NegInfinity | NaN

fun greater_than :: "js_number \<Rightarrow> real \<Rightarrow> bool" where
  "greater_than (Finite x) t = (x > t)"
| "greater_than PosInfinity t = True"
| "greater_than NegInfinity t = False"
| "greater_than NaN t = False"

fun less_than :: "js_number \<Rightarrow> real \<Rightarrow> bool" where
  "less_than (Finite x) t = (x < t)"
| "less_than PosInfinity t = False"
| "less_than NegInfinity t = True"
| "less_than NaN t = False"

text \<open>
  \<open>Math.max(...xs)\<close>: \<open>NaN\<close> as soon as one argument is \<open>NaN\<close>, and \<open>-Infinity\<close> for the
  empty argument list.
\<close>

fun larger :: "js_number \<Rightarrow> js_number \<Rightarrow> js_number" where
  "larger NaN b = NaN"
| "larger a NaN = NaN"
| "larger PosInfinity b = PosInfinity"
| "larger a PosInfinity = PosInfinity"
| "larger NegInfinity b = b"
| "larger a NegInfinity = a"
| "larger (Finite x) (Finite y) = Finite (max x y)"

definition math_max :: "js_number list \<Rightarrow> js_number" where
  "math_max xs = foldl larger NegInfinity xs"


section \<open>Configuration (config/environment.ts, the \<open>agent\<close> block)\<close>

text \<open>
  \<open>confidenceThreshold\<close> is \<open>parseFloat\<close> of an environment variable, by default of the
  text \<open>0.8\<close>; it is taken to be a finite number.
\<close>

record agent_config =
  confidenceThreshold :: real
  autoReplyEnabled :: bool
  humanReviewRequired :: bool


section \<open>Decisions and policies (agents/qudag.system.ts)\<close>

text \<open>
  The interface \<open>AgentDecision\<close> declares \<open>confidence\<close> as a number, and every agent stores
  one. The policy action \<open>set_confidence\<close> stores \<open>parameters.value\<close>, whatever it is, so
  the field holds an arbitrary value, or none (\<open>undefined\<close>).
\<close>

record AgentDecision =
  action :: string
  confidence :: "jsval option"
  reasoning :: string
  requiresHumanApproval :: bool
  suggestedResponse :: "string option"
  metadata :: "jsobject option"

record PolicyRule =
  condition :: string
  rule_action :: string
  parameters :: "jsobject option"

record AgentPolicy =
  policy_id :: string
  policy_name :: string
  rules :: "PolicyRule list"
  priority :: int
  enabled :: bool

record support_request =
  subject :: string
  body :: string
  sender :: string
  issueNumber :: "nat option"

record reply_context =
  request :: support_request
  triage :: "jsobject option"

text \<open>The \<open>input\<close> argument of \<open>process\<close>, one shape per agent.\<close>

datatype agent_input =
    TriageInput support_request
  | SummarizationInput string "int option"
  | IntentInput string
  | AutoReplyInput jsval reply_context

abbreviation Number :: "real \<Rightarrow> jsval option" where
  "Number r \<equiv> Some (JNum r)"

text \<open>
  The exceptions that leave a method. \<open>TypeError\<close> is what JavaScript raises for
  \<open>parameters.value\<close> when \<open>parameters\<close> is \<open>undefined\<close>.
\<close>

datatype failure = TypeError string | Error string

text \<open>
  A rule's condition is JavaScript source text, run by \<open>new Function('input', 'decision',
  `return ${condition}`)\<close>. The JavaScript engine is a parameter of the model:
  \<open>run_condition\<close> maps the text, the input and the decision to the truthiness of the
  returned value, or to \<open>None\<close> when building or calling the function throws, and
  \<open>string_to_number\<close> is the conversion of a string to a number. Conditions are taken to
  be free of side effects.
\<close>

record js_engine =
  run_condition :: "string \<Rightarrow> agent_input \<Rightarrow> AgentDecision \<Rightarrow> bool option"
  string_to_number :: "string \<Rightarrow> js_number"

text \<open>
  The conversion that \<open>Math.max\<close> and the comparison operators apply to an operand:
  \<open>undefined\<close> becomes \<open>NaN\<close>, an array is converted through its \<open>join(',')\<close>.
\<close>

definition to_number :: "(string \<Rightarrow> js_number) \<Rightarrow> jsval option \<Rightarrow> js_number" where
  "to_number of_string v =
     (case v of
        None \<Rightarrow> NaN
      | Some (JNum r) \<Rightarrow> Finite r
      | Some (JBool b) \<Rightarrow> Finite (if b then 1 else 0)
      | Some (JStr s) \<Rightarrow> of_string s
      | Some (JStrs xs) \<Rightarrow> of_string (join '','' xs))"

definition evaluateCondition :: "js_engine \<Rightarrow> string \<Rightarrow> agent_input \<Rightarrow> AgentDecision \<Rightarrow> bool" where
  "evaluateCondition ev cond inp decision =
     (case run_condition ev cond inp decision of Some b \<Rightarrow> b | None \<Rightarrow> False)"

definition applyAction :: "string \<Rightarrow> AgentDecision \<Rightarrow> jsobject option \<Rightarrow> failure + AgentDecision" where
  "applyAction act decision params =
     (if act = ''require_human_approval'' then Inr (decision\<lparr>requiresHumanApproval := True\<rparr>)
      else if act = ''set_confidence'' then
        (case params of
           None \<Rightarrow> Inl (TypeError ''Cannot read properties of undefined (reading 'value')'')
         | Some ps \<Rightarrow> Inr (decision\<lparr>confidence := map_of ps ''value''\<rparr>))
      else if act = ''add_metadata'' then
        Inr (decision\<lparr>metadata := Some (spread (metadata decision) params)\<rparr>)
      else Inr decision)"

fun apply_rules :: "js_engine \<Rightarrow> agent_input \<Rightarrow> PolicyRule list \<Rightarrow> AgentDecision \<Rightarrow> failure + AgentDecision" where
  "apply_rules ev inp [] decision = Inr decision"
| "apply_rules ev inp (rule # rs) decision =
     (if evaluateCondition ev (condition rule) inp decision then
        (case applyAction (rule_action rule) decision (parameters rule) of
           Inl e \<Rightarrow> Inl e
         | Inr decision' \<Rightarrow> apply_rules ev inp rs decision')
      else apply_rules ev inp rs decision)"

fun apply_policies :: "js_engine \<Rightarrow> agent_input \<Rightarrow> AgentPolicy list \<Rightarrow> AgentDecision \<Rightarrow> failure + AgentDecision" where
  "apply_policies ev inp [] decision = Inr decision"
| "apply_policies ev inp (policy # ps) decision =
     (case apply_rules ev inp (rules policy) decision of
        Inl e \<Rightarrow> Inl e
      | Inr decision' \<Rightarrow> apply_policies ev inp ps decision')"

definition checkPolicies :: "js_engine \<Rightarrow> AgentPolicy list \<Rightarrow> agent_input \<Rightarrow> AgentDecision \<Rightarrow> failure + AgentDecision" where
  "checkPolicies ev policies inp decision =
     apply_policies ev inp (filter enabled policies) decision"

text \<open>\<open>addPolicy\<close>: push, then a stable sort by descending priority.\<close>

definition addPolicy :: "AgentPolicy list \<Rightarrow> AgentPolicy \<Rightarrow> AgentPolicy list" where
  "addPolicy policies policy = sort_key (\<lambda>p. - priority p) (policies @ [policy])"


subsection \<open>TriageAgent\<close>

text \<open>
  \<open>categorize\<close> in two steps: the categories whose keywords occur in the text, and the
  fallback for the empty list.
\<close>

definition matched_categories :: "support_request \<Rightarrow> string list" where
  "matched_categories inp =
     (let text = toLowerCase (subject inp @ '' '' @ body inp)
      in (if str_includes text ''bug'' \<or> str_includes text ''error'' \<or> str_includes text ''broken''
          then [''bug''] else [])
         @ (if str_includes text ''feature'' \<or> str_includes text ''request''
               \<or> str_includes text ''enhancement''
            then [''feature-request''] else [])
         @ (if str_includes text ''urgent'' \<or> str_includes text ''critical'' \<or> str_includes text ''asap''
            then [''urgent''] else [])
         @ (if str_includes text ''question'' \<or> str_includes text ''how to'' \<or> str_includes text ''help''
            then [''question''] else []))"

definition categorize :: "support_request \<Rightarrow> string list" where
  "categorize inp =
     (let categories = matched_categories inp
      in if length categories = 0 then [''general''] else categories)"

definition prioritize :: "string list \<Rightarrow> string" where
  "prioritize categories =
     (if ''urgent'' \<in> set categories then ''high''
      else if ''bug'' \<in> set categories then ''medium''
      else if ''feature-request'' \<in> set categories then ''low''
      else ''normal'')"

definition triage_evaluateConfidence :: "string list \<Rightarrow> string \<Rightarrow> real" where
  "triage_evaluateConfidence categories prio =
     (let c0 = js_lit 0.5;
          c1 = (if length categories > 0 \<and> hd categories \<noteq> ''general''
                then js_add c0 (js_lit 0.2) else c0);
          c2 = (if prio \<noteq> ''normal'' then js_add c1 (js_lit 0.2) else c1);
          c3 = (if length categories = 1 then js_add c2 (js_lit 0.1) else c2)
      in min c3 (js_lit 1.0))"

definition triage_process :: "agent_config \<Rightarrow> js_engine \<Rightarrow> AgentPolicy list \<Rightarrow> support_request \<Rightarrow> failure + AgentDecision" where
  "triage_process cfg ev policies inp =
     (let categories = categorize inp;
          prio = prioritize categories;
          conf = triage_evaluateConfidence categories prio;
          decision = \<lparr>action = ''triage'',
                      confidence = Number conf,
                      reasoning = ''Categorized as '' @ join '', '' categories @ '' with '' @ prio @ '' priority'',
                      requiresHumanApproval = (conf < confidenceThreshold cfg),
                      suggestedResponse = None,
                      metadata = Some [(''categories'', JStrs categories), (''priority'', JStr prio)]\<rparr>
      in checkPolicies ev policies (TriageInput inp) decision)"


subsection \<open>SummarizationAgent\<close>

definition is_terminator :: "char \<Rightarrow> bool" where
  "is_terminator c = (c = CHR ''.'' \<or> c = CHR ''!'' \<or> c = CHR ''?'')"

text \<open>
  \<open>text.match(/[^.!?]+[.!?]+/g) || []\<close>: leading terminators cannot start a match and are
  skipped; a match is a maximal run of non-terminators followed by a maximal run of
  terminators; a trailing run of non-terminators without a terminator is not a match.
\<close>

function match_sentences :: "string \<Rightarrow> string list" where
  "match_sentences text =
     (let t = dropWhile is_terminator text;
          ws = takeWhile (\<lambda>c. \<not> is_terminator c) t;
          rest = dropWhile (\<lambda>c. \<not> is_terminator c) t
      in if ws = [] \<or> rest = [] then []
         else (ws @ takeWhile is_terminator rest) # match_sentences (dropWhile is_terminator rest))"
  by pat_completeness auto
termination
proof (relation "measure length", simp, goal_cases)
  case (1 s t ws rest)
  have "length (dropWhile is_terminator rest) \<le> length rest"
    by (rule length_dropWhile_le)
  moreover have "length t = length ws + length rest"
    using 1(2,3) by (metis length_append takeWhile_dropWhile_id)
  moreover have "length t \<le> length s"
    using 1(1) by (simp add: length_dropWhile_le)
  moreover have "ws \<noteq> []"
    using 1(4) by simp
  ultimately show ?case by (cases ws) simp_all
qed

declare match_sentences.simps [simp del]

definition importantWords :: "string list" where
  "importantWords = [''important'', ''critical'', ''urgent'', ''bug'', ''error'', ''feature'',
                     ''request'', ''issue'', ''problem'']"

definition scoreSentence :: "string \<Rightarrow> real" where
  "scoreSentence sentence =
     foldl (\<lambda>score word. if str_includes (toLowerCase sentence) word then score + 1 else score)
       0 importantWords
     + 1 / (real (length sentence) / 100)"

text \<open>
  \<open>sort((a, b) => b.score - a.score)\<close> is a stable sort by descending score;
  \<open>substring(0, n)\<close> treats a negative \<open>n\<close> as 0.
\<close>

definition summarize :: "string \<Rightarrow> int \<Rightarrow> string" where
  "summarize text maxLength =
     (let sentences = match_sentences text;
          importantSentences =
            map fst (take 3 (sort_key (\<lambda>s. - snd s)
                               (map (\<lambda>s. (trim s, scoreSentence s)) sentences)));
          summary = join '' '' importantSentences
      in if int (length summary) > maxLength
         then take (nat (maxLength - 3)) summary @ ''...''
         else summary)"

text \<open>
  \<open>evaluateConfidence\<close> divides \<open>result.summaryLength\<close> by \<open>result.originalLength\<close>.
  A missing field is \<open>undefined\<close>, and the quotient is then \<open>NaN\<close>, as is 0/0.
\<close>

definition js_divide :: "nat option \<Rightarrow> nat option \<Rightarrow> js_number" where
  "js_divide a b =
     (case (a, b) of
        (Some x, Some y) \<Rightarrow>
          (if y = 0 then (if x = 0 then NaN else PosInfinity)
           else Finite (js_round (real x / real y)))
      | _ \<Rightarrow> NaN)"

definition summarization_evaluateConfidence :: "nat option \<Rightarrow> nat option \<Rightarrow> real" where
  "summarization_evaluateConfidence summaryLength originalLength =
     (let ratio = js_divide summaryLength originalLength
      in if less_than ratio (js_lit 0.1) then js_lit 0.6
         else if greater_than ratio (js_lit 0.5) then js_lit 0.7
         else js_lit 0.85)"

text \<open>
  \<open>process\<close> calls \<open>evaluateConfidence({ summary, original: input.text })\<close>: the object has
  neither a \<open>summaryLength\<close> nor an \<open>originalLength\<close> field.
\<close>

definition summarization_process :: "js_engine \<Rightarrow> AgentPolicy list \<Rightarrow> string \<Rightarrow> int option \<Rightarrow> failure + AgentDecision" where
  "summarization_process ev policies text maxLength =
     (let summary = summarize text (case maxLength of None \<Rightarrow> 200 | Some m \<Rightarrow> if m \<noteq> 0 then m else 200);
          conf = summarization_evaluateConfidence None None;
          decision = \<lparr>action = ''summarize'',
                      confidence = Number conf,
                      reasoning = ''Generated summary of input text'',
                      requiresHumanApproval = False,
                      suggestedResponse = Some summary,
                      metadata = Some [(''originalLength'', JNum (real (length text))),
                                       (''summaryLength'', JNum (real (length summary)))]\<rparr>
      in checkPolicies ev policies (SummarizationInput text maxLength) decision)"


subsection \<open>IntentDetectionAgent\<close>

definition detectIntent :: "string \<Rightarrow> string" where
  "detectIntent text =
     (let lowerText = toLowerCase text in
      if str_includes lowerText ''cancel'' \<or> str_includes lowerText ''unsubscribe''
        then ''cancellation''
      else if str_includes lowerText ''refund'' \<or> str_includes lowerText ''money back''
        then ''refund_request''
      else if str_includes lowerText ''how'' \<or> str_includes lowerText ''what''
              \<or> str_includes lowerText ''where''
        then ''information_request''
      else if str_includes lowerText ''bug'' \<or> str_includes lowerText ''broken''
              \<or> str_includes lowerText ''not working''
        then ''bug_report''
      else if str_includes lowerText ''feature'' \<or> str_includes lowerText ''could you''
              \<or> str_includes lowerText ''it would be nice''
        then ''feature_request''
      else ''general_inquiry'')"

definition intent_evaluateConfidence :: "string \<Rightarrow> real" where
  "intent_evaluateConfidence intent_type =
     (if intent_type = ''general_inquiry'' then js_lit 0.5 else js_lit 0.85)"

definition intent_process :: "js_engine \<Rightarrow> AgentPolicy list \<Rightarrow> string \<Rightarrow> failure + AgentDecision" where
  "intent_process ev policies text =
     (let intent_type = detectIntent text;
          conf = intent_evaluateConfidence intent_type;
          decision = \<lparr>action = ''route'',
                      confidence = Number conf,
                      reasoning = ''Detected intent: '' @ intent_type,
                      requiresHumanApproval = (conf < js_lit 0.7),
                      suggestedResponse = None,
                      metadata = Some [(''type'', JStr intent_type), (''entities'', JStrs [])]\<rparr>
      in checkPolicies ev policies (IntentInput text) decision)"


subsection \<open>AutoReplyAgent\<close>

definition knowledgeBase :: "(string \<times> string) list" where
  "knowledgeBase =
     [(''password_reset'', ''To reset your password, please visit our password reset page at [URL]. Enter your email address and follow the instructions sent to your inbox.''),
      (''refund_policy'', ''Our refund policy allows for full refunds within 30 days of purchase. Please provide your order number and reason for the refund request.''),
      (''technical_support'', ''For technical issues, please provide: 1) Error messages, 2) Steps to reproduce, 3) Your system information. Our team will investigate promptly.'')]"

text \<open>
  The intent handed to the agent is \<open>intentDecision.metadata.type\<close>, which a policy may have
  replaced by any value; only a string can be a key of the knowledge base or match a
  \<open>case\<close> label.
\<close>

definition generateResponse :: "jsval \<Rightarrow> string option" where
  "generateResponse intent =
     (case intent of
        JStr s \<Rightarrow>
          (case map_of knowledgeBase s of
             Some r \<Rightarrow> Some r
           | None \<Rightarrow>
               if s = ''information_request'' then
                 Some ''Thank you for your inquiry. Our support team will review your question and respond within 24 hours.''
               else if s = ''bug_report'' then
                 Some ''Thank you for reporting this issue. We have logged it with our development team who will investigate. You can track the progress on this GitHub issue.''
               else if s = ''feature_request'' then
                 Some ''Thank you for your feature suggestion! We value user feedback and will consider this for our roadmap. The team will review and update this issue with our decision.''
               else None)
      | _ \<Rightarrow> None)"

text \<open>Truthiness of a \<open>string | null | undefined\<close> value.\<close>

definition str_truthy :: "string option \<Rightarrow> bool" where
  "str_truthy r = (case r of None \<Rightarrow> False | Some s \<Rightarrow> s \<noteq> [])"

definition autoReply_process :: "agent_config \<Rightarrow> js_engine \<Rightarrow> AgentPolicy list \<Rightarrow> jsval \<Rightarrow> reply_context \<Rightarrow> failure + AgentDecision" where
  "autoReply_process cfg ev policies intent ctx =
     (let response = generateResponse intent;
          conf = (if str_truthy response then js_lit 0.9 else js_lit 0.3);
          decision = \<lparr>action = (if str_truthy response then ''auto_reply'' else ''escalate''),
                      confidence = Number conf,
                      reasoning = (if str_truthy response then ''Found matching response in knowledge base''
                                   else ''No suitable response found''),
                      requiresHumanApproval = (\<not> str_truthy response \<or> conf < confidenceThreshold cfg),
                      suggestedResponse = response,
                      metadata = Some [(''intent'', intent)]\<rparr>
      in checkPolicies ev policies (AutoReplyInput intent ctx) decision)"


subsection \<open>QuDAGOrchestrator\<close>

text \<open>The four agents differ, as orchestrator state, only in the policies attached to them.\<close>

record QuDAGOrchestrator =
  triagePolicies :: "AgentPolicy list"
  summarizationPolicies :: "AgentPolicy list"
  intentPolicies :: "AgentPolicy list"
  autoReplyPolicies :: "AgentPolicy list"

definition humanReviewPolicy :: "agent_config \<Rightarrow> AgentPolicy" where
  "humanReviewPolicy cfg =
     \<lparr>policy_id = ''human-review'', policy_name = ''Human Review Policy'',
      rules = [\<lparr>condition = ''decision.confidence < 0.8'',
                rule_action = ''require_human_approval'', parameters = None\<rparr>],
      priority = 100, enabled = humanReviewRequired cfg\<rparr>"

definition initializeAgents :: "agent_config \<Rightarrow> QuDAGOrchestrator" where
  "initializeAgents cfg =
     \<lparr>triagePolicies = addPolicy [] (humanReviewPolicy cfg),
      summarizationPolicies = addPolicy [] (humanReviewPolicy cfg),
      intentPolicies = addPolicy [] (humanReviewPolicy cfg),
      autoReplyPolicies = addPolicy [] (humanReviewPolicy cfg)\<rparr>"

record process_result =
  decisions :: "AgentDecision list"
  finalAction :: string
  requiresApproval :: bool

text \<open>The part of \<open>processRequest\<close> below the comment "Determine final action".\<close>

definition determineFinalAction :: "agent_config \<Rightarrow> js_engine \<Rightarrow> AgentDecision list \<Rightarrow> process_result" where
  "determineFinalAction cfg ev ds =
     (let requiresApproval = list_ex requiresHumanApproval ds;
          highestConfidence =
            math_max (map (\<lambda>d. to_number (string_to_number ev) (confidence d)) ds);
          finalAction =
            (if \<not> requiresApproval \<and> greater_than highestConfidence (confidenceThreshold cfg)
             then (case find (\<lambda>d. action d = ''auto_reply'') ds of
                     None \<Rightarrow> ''escalate''
                   | Some autoReplyDecision \<Rightarrow>
                       if str_truthy (suggestedResponse autoReplyDecision) then ''auto_reply''
                       else ''escalate'')
             else ''escalate'')
      in \<lparr>decisions = ds, finalAction = finalAction, requiresApproval = requiresApproval\<rparr>)"

text \<open>\<open>intentDecision.metadata?.type\<close>\<close>

definition metadata_type :: "AgentDecision \<Rightarrow> jsval option" where
  "metadata_type d = (case metadata d of None \<Rightarrow> None | Some m \<Rightarrow> map_of m ''type'')"

text \<open>
  The root \<open>QuestionNode\<close> that \<open>processRequest\<close> stores in \<open>questionGraph\<close> is never read
  again and is left out, as are logging and the \<open>decision\<close> events.
\<close>

definition processRequest :: "agent_config \<Rightarrow> js_engine \<Rightarrow> QuDAGOrchestrator \<Rightarrow> support_request \<Rightarrow> failure + process_result" where
  "processRequest cfg ev orch inp =
     (case triage_process cfg ev (triagePolicies orch) inp of
        Inl e \<Rightarrow> Inl e
      | Inr triageDecision \<Rightarrow>
     (case intent_process ev (intentPolicies orch) (subject inp @ '' '' @ body inp) of
        Inl e \<Rightarrow> Inl e
      | Inr intentDecision \<Rightarrow>
     (case summarization_process ev (summarizationPolicies orch) (body inp) None of
        Inl e \<Rightarrow> Inl e
      | Inr summaryDecision \<Rightarrow>
     (case metadata_type intentDecision of
        Some ty \<Rightarrow>
          if truthy ty \<and> autoReplyEnabled cfg then
            (case autoReply_process cfg ev (autoReplyPolicies orch) ty
                    \<lparr>request = inp, triage = metadata triageDecision\<rparr> of
               Inl e \<Rightarrow> Inl e
             | Inr replyDecision \<Rightarrow>
                 Inr (determineFinalAction cfg ev
                        [triageDecision, intentDecision, summaryDecision, replyDecision]))
          else Inr (determineFinalAction cfg ev [triageDecision, intentDecision, summaryDecision])
      | None \<Rightarrow> Inr (determineFinalAction cfg ev [triageDecision, intentDecision, summaryDecision])))))"


section \<open>QuDAG swarm orchestrator (the integration layer)\<close>

datatype node_type = Question | Analysis | Synthesis | Action | Decision

datatype node_status = Pending | Processing | Completed | Failed

text \<open>
  The result objects the node handlers build; a field an object does not have is \<open>None\<close>.
  Field names carry the prefix \<open>r_\<close> where they would clash with those of \<open>AgentDecision\<close>.
\<close>

record node_result =
  r_type :: "string option"
  r_answer :: "jsval option"
  r_summary :: "string option"
  r_keyPoints :: "string list option"
  r_confidence :: "real option"
  r_combinedInsights :: "jsval option list option"
  r_overallConfidence :: "real option"
  r_recommendation :: "string option"
  r_action :: "string option"
  r_target :: "string option"
  r_decision :: "string option"
  r_consensus :: "real option"
  r_reasoning :: "string option"

definition empty_result :: node_result where
  "empty_result =
     \<lparr>r_type = None, r_answer = None, r_summary = None, r_keyPoints = None, r_confidence = None,
      r_combinedInsights = None, r_overallConfidence = None, r_recommendation = None,
      r_action = None, r_target = None, r_decision = None, r_consensus = None,
      r_reasoning = None\<rparr>"

record QuDAGNode =
  node_id :: string
  ntype :: node_type
  content :: string
  parent :: "string option"
  children :: "string list"
  dependencies :: "string list"
  node_confidence :: "real option"
  result :: "node_result option"
  status :: node_status
  timestamp :: nat
  node_metadata :: "jsobject option"

text \<open>
  A JavaScript \<open>Map\<close> is an association list in insertion order: \<open>get\<close> is \<open>map_of\<close>,
  \<open>set\<close> is \<open>AList.update\<close> (in place for a known key, at the end for a new one), \<open>keys()\<close>
  is \<open>map fst\<close>.
\<close>

record QuDAGGraph =
  rootId :: string
  nodes :: "(string \<times> QuDAGNode) list"
  edges :: "(string \<times> string list) list"
  executionOrder :: "string list"

record AgentSwarmConfig =
  maxAgents :: nat
  consensusThreshold :: real
  quantumResistant :: bool
  darkAddressing :: bool
  onionRouting :: bool

text \<open>\<open>qdagInstance\<close> records whether \<open>initialize\<close> has stored the QuDAG instance.\<close>

record QuDAGSwarmOrchestrator =
  graphs :: "(string \<times> QuDAGGraph) list"
  swarmConfig :: AgentSwarmConfig
  qdagInstance :: bool

record swarm_request = support_request +
  request_id :: string


subsection \<open>Execution order\<close>

record visit_state =
  visited :: "string set"
  order :: "string list"

text \<open>
  The closure \<open>visit\<close> of \<open>updateExecutionOrder\<close> and its loop over the dependencies call
  each other; \<open>Inl nodeId\<close> is a call \<open>visit(nodeId)\<close>, \<open>Inr ids\<close> is the rest of a
  \<open>for (const id of ids) visit(id)\<close> loop. A recursion that does not end has the value
  \<open>None\<close> (the JavaScript engine gives up with a stack overflow).
\<close>

partial_function (option) visit_loop :: "QuDAGGraph \<Rightarrow> string + string list \<Rightarrow> visit_state \<Rightarrow> visit_state option" where
  "visit_loop graph w st =
     (case w of
        Inl nodeId \<Rightarrow>
          (if nodeId \<in> visited st then Some st
           else (case map_of (nodes graph) nodeId of
                   None \<Rightarrow> Some st
                 | Some node \<Rightarrow>
                     Option.bind (visit_loop graph (Inr (dependencies node)) st)
                       (\<lambda>st'. Some (st'\<lparr>visited := insert nodeId (visited st'),
                                         order := order st' @ [nodeId]\<rparr>))))
      | Inr [] \<Rightarrow> Some st
      | Inr (depId # ids) \<Rightarrow>
          Option.bind (visit_loop graph (Inl depId) st) (\<lambda>st'. visit_loop graph (Inr ids) st'))"

declare visit_loop.simps [code]

definition visit :: "QuDAGGraph \<Rightarrow> string \<Rightarrow> visit_state \<Rightarrow> visit_state option" where
  "visit graph nodeId st = visit_loop graph (Inl nodeId) st"

definition visit_each :: "QuDAGGraph \<Rightarrow> string list \<Rightarrow> visit_state \<Rightarrow> visit_state option" where
  "visit_each graph ids st = visit_loop graph (Inr ids) st"

definition updateExecutionOrder :: "QuDAGGraph \<Rightarrow> QuDAGGraph option" where
  "updateExecutionOrder graph =
     Option.bind (visit graph (rootId graph) \<lparr>visited = {}, order = []\<rparr>)
       (\<lambda>st1. Option.bind (visit_each graph (map fst (nodes graph)) st1)
          (\<lambda>st2. Some (graph\<lparr>executionOrder := order st2\<rparr>)))"

text \<open>
  The dependency relation of a graph: \<open>(d, n)\<close> when \<open>n\<close> is a node of the graph and lists
  \<open>d\<close> among its dependencies.
\<close>

definition dep_edges :: "QuDAGGraph \<Rightarrow> (string \<times> string) set" where
  "dep_edges graph =
     (\<Union>n \<in> set (map fst (nodes graph)).
        case map_of (nodes graph) n of
          None \<Rightarrow> {}
        | Some node \<Rightarrow> (\<lambda>d. (d, n)) ` set (dependencies node))"

text \<open>\<open>d\<close> stands strictly before \<open>n\<close> in the sequence \<open>xs\<close>.\<close>

definition precedes :: "string \<Rightarrow> string \<Rightarrow> string list \<Rightarrow> bool" where
  "precedes d n xs = (\<exists>j < length xs. \<exists>i < j. xs ! i = d \<and> xs ! j = n)"


subsection \<open>Graph construction\<close>

text \<open>The identifiers of \<open>uuidv4()\<close> and the clock are supplied by the caller.\<close>

definition createGraph :: "QuDAGSwarmOrchestrator \<Rightarrow> string \<Rightarrow> string \<Rightarrow> string \<Rightarrow> nat \<Rightarrow> QuDAGSwarmOrchestrator \<times> QuDAGGraph" where
  "createGraph orch requestId initialQuestion uuid now =
     (let rootNode = \<lparr>node_id = uuid, ntype = Question, content = initialQuestion, parent = None,
                      children = [], dependencies = [], node_confidence = None, result = None,
                      status = Pending, timestamp = now, node_metadata = None\<rparr>;
          graph = \<lparr>rootId = uuid, nodes = [(uuid, rootNode)], edges = [],
                   executionOrder = [uuid]\<rparr>
      in (orch\<lparr>graphs := AList.update requestId graph (graphs orch)\<rparr>, graph))"

text \<open>
  \<open>addNode\<close> overwrites the \<open>id\<close> and \<open>timestamp\<close> of the node it is given. Its result is
  \<open>None\<close> when the recomputation of the execution order does not end.
\<close>

definition addNode :: "QuDAGSwarmOrchestrator \<Rightarrow> string \<Rightarrow> QuDAGNode \<Rightarrow> string \<Rightarrow> nat \<Rightarrow> (failure + QuDAGSwarmOrchestrator \<times> QuDAGNode) option" where
  "addNode orch graphId node uuid now =
     (case map_of (graphs orch) graphId of
        None \<Rightarrow> Some (Inl (Error (''Graph '' @ graphId @ '' not found'')))
      | Some graph \<Rightarrow>
          (let newNode = node\<lparr>node_id := uuid, timestamp := now\<rparr>;
               nodes1 = AList.update uuid newNode (nodes graph);
               nodes2 =
                 (case parent node of
                    None \<Rightarrow> nodes1
                  | Some p \<Rightarrow>
                      if p = [] then nodes1
                      else (case map_of nodes1 p of
                              None \<Rightarrow> nodes1
                            | Some parentNode \<Rightarrow>
                                AList.update p (parentNode\<lparr>children := children parentNode @ [uuid]\<rparr>)
                                  nodes1));
               edges1 = (if map_of (edges graph) uuid = None
                         then AList.update uuid [] (edges graph) else edges graph)
           in (case updateExecutionOrder (graph\<lparr>nodes := nodes2, edges := edges1\<rparr>) of
                 None \<Rightarrow> None
               | Some graph' \<Rightarrow>
                   (case map_of (nodes graph') uuid of
                      None \<Rightarrow> Some (Inr (orch\<lparr>graphs := AList.update graphId graph' (graphs orch)\<rparr>, newNode))
                    | Some stored \<Rightarrow>
                        Some (Inr (orch\<lparr>graphs := AList.update graphId graph' (graphs orch)\<rparr>, stored))))))"

definition decomposeQuestion :: "swarm_request \<Rightarrow> string list" where
  "decomposeQuestion req =
     (let questions =
            [''What is the primary intent of this request?'',
             ''What category does this request belong to?'',
             ''What is the urgency level?'',
             ''Is this a known issue with existing solution?'',
             ''Can this be handled automatically?'',
             ''What resources are needed to resolve this?'',
             ''What is the estimated resolution time?'',
             ''Should this be escalated to human support?''];
          text = toLowerCase (subject req @ '' '' @ body req)
      in questions
         @ (if str_includes text ''bug'' \<or> str_includes text ''error''
            then [''What is the severity of this bug?'', ''Can we reproduce this issue?''] else [])
         @ (if str_includes text ''payment'' \<or> str_includes text ''billing''
            then [''Is this a billing dispute?'', ''Does this require financial team involvement?'']
            else [])
         @ (if str_includes text ''security'' \<or> str_includes text ''breach''
            then [''Is this a security incident?'', ''Should we trigger security protocols?'']
            else []))"


subsection \<open>Consensus\<close>

text \<open>\<open>d.confidence || d.overallConfidence || 0\<close>: a missing field and the number 0 are falsy.\<close>

definition decision_confidence :: "node_result \<Rightarrow> real" where
  "decision_confidence d =
     (case r_confidence d of
        Some c \<Rightarrow> if c \<noteq> 0 then c
                  else (case r_overallConfidence d of Some oc \<Rightarrow> if oc \<noteq> 0 then oc else 0 | None \<Rightarrow> 0)
      | None \<Rightarrow> (case r_overallConfidence d of Some oc \<Rightarrow> if oc \<noteq> 0 then oc else 0 | None \<Rightarrow> 0))"

definition calculateConsensus :: "node_result list \<Rightarrow> real" where
  "calculateConsensus ds =
     (if length ds = 0 then 0
      else
        (let confidences = filter (\<lambda>c. c > 0) (map decision_confidence ds) in
         if length confidences = 0 then 0
         else
           (let average = foldl (\<lambda>a b. a + b) 0 confidences / real (length confidences);
                variance = foldl (\<lambda>sum c. sum + (c - average) ^ 2) 0 confidences
                           / real (length confidences);
                consensusScore = average * (1 - sqrt variance)
            in min (max consensusScore 0) 1)))"

text \<open>The consensus as section 4.4 of the specification words it.\<close>

definition mean :: "real list \<Rightarrow> real" where
  "mean cs = sum_list cs / real (length cs)"

definition population_variance :: "real list \<Rightarrow> real" where
  "population_variance cs = (\<Sum>c\<leftarrow>cs. (c - mean cs) ^ 2) / real (length cs)"

text \<open>
  "Preferring an explicit \<open>confidence\<close> field, falling back to \<open>overallConfidence\<close>", else 0;
  the fallback is read as that of the source's \<open>||\<close>, which also leaves a \<open>confidence\<close> of 0.
\<close>

definition spec_confidence :: "node_result \<Rightarrow> real" where
  "spec_confidence d =
     (let fallback = (case r_overallConfidence d of Some oc \<Rightarrow> oc | None \<Rightarrow> 0)
      in case r_confidence d of Some c \<Rightarrow> (if c = 0 then fallback else c) | None \<Rightarrow> fallback)"

definition spec_consensus :: "node_result list \<Rightarrow> real" where
  "spec_consensus ds =
     (let cs = filter (\<lambda>c. 0 < c) (map spec_confidence ds) in
      if cs = [] then 0
      else min 1 (max 0 (mean cs * (1 - sqrt (population_variance cs)))))"

definition synthesizeRecommendation :: "node_result list \<Rightarrow> real \<Rightarrow> string" where
  "synthesizeRecommendation ds consensus =
     (if consensus > 0.8 then ''High confidence - proceed with automated response''
      else if consensus > 0.6 then ''Medium confidence - suggest automated response with human review''
      else ''Low confidence - escalate to human support'')"


subsection \<open>Node handlers\<close>

definition request_text :: "swarm_request \<Rightarrow> string" where
  "request_text ctx = toLowerCase (subject ctx @ '' '' @ body ctx)"

definition answer_result :: "jsval \<Rightarrow> real \<Rightarrow> node_result" where
  "answer_result a c = empty_result\<lparr>r_answer := Some a, r_confidence := Some c\<rparr>"

definition swarm_detectIntent :: "swarm_request \<Rightarrow> node_result" where
  "swarm_detectIntent ctx =
     (let text = request_text ctx in
      if str_includes text ''refund'' then answer_result (JStr ''refund_request'') 0.9
      else if str_includes text ''bug'' then answer_result (JStr ''bug_report'') 0.85
      else if str_includes text ''feature'' then answer_result (JStr ''feature_request'') 0.8
      else if str_includes text ''help'' then answer_result (JStr ''support_request'') 0.75
      else answer_result (JStr ''general_inquiry'') 0.5)"

definition swarm_categorize :: "swarm_request \<Rightarrow> node_result" where
  "swarm_categorize ctx =
     (let text = request_text ctx;
          categories =
            (if str_includes text ''technical'' then [''technical''] else [])
            @ (if str_includes text ''billing'' then [''billing''] else [])
            @ (if str_includes text ''account'' then [''account''] else [])
            @ (if str_includes text ''security'' then [''security''] else []);
          categories' = (if length categories = 0 then [''general''] else categories)
      in answer_result (JStrs categories') (0.7 + real (length categories') * 0.05))"

definition assessUrgency :: "swarm_request \<Rightarrow> node_result" where
  "assessUrgency ctx =
     (let text = request_text ctx in
      if str_includes text ''urgent'' \<or> str_includes text ''critical''
        then answer_result (JStr ''high'') 0.95
      else if str_includes text ''asap'' \<or> str_includes text ''important''
        then answer_result (JStr ''medium'') 0.8
      else answer_result (JStr ''normal'') 0.7)"

definition canAutomate :: "swarm_request \<Rightarrow> node_result" where
  "canAutomate ctx =
     (let intent = swarm_detectIntent ctx in
      if r_answer intent = Some (JStr ''general_inquiry'')
         \<or> r_answer intent = Some (JStr ''support_request'')
        then answer_result (JBool True) 0.7
      else answer_result (JBool False) 0.8)"

definition shouldEscalate :: "swarm_request \<Rightarrow> node_result" where
  "shouldEscalate ctx =
     (let urgency = assessUrgency ctx in
      if r_answer urgency = Some (JStr ''high'') then answer_result (JBool True) 0.9
      else
        (let text = request_text ctx in
         if str_includes text ''legal'' \<or> str_includes text ''security'' \<or> str_includes text ''breach''
           then answer_result (JBool True) 0.95
         else answer_result (JBool False) 0.6))"

definition processQuestion :: "QuDAGNode \<Rightarrow> swarm_request \<Rightarrow> node_result" where
  "processQuestion node ctx =
     (let question = toLowerCase (content node) in
      if str_includes question ''intent'' then swarm_detectIntent ctx
      else if str_includes question ''category'' then swarm_categorize ctx
      else if str_includes question ''urgency'' then assessUrgency ctx
      else if str_includes question ''automatically'' then canAutomate ctx
      else if str_includes question ''escalate'' then shouldEscalate ctx
      else answer_result (JStr ''Unable to process question'') 0.3)"

definition processAnalysis :: "QuDAGNode \<Rightarrow> swarm_request \<Rightarrow> node_result" where
  "processAnalysis node ctx =
     empty_result\<lparr>r_type := Some ''analysis'', r_summary := Some (''Analyzed '' @ subject ctx),
                  r_keyPoints := Some [], r_confidence := Some 0.7\<rparr>"

text \<open>\<open>d.answer || d.summary\<close>\<close>

definition answer_or_summary :: "node_result \<Rightarrow> jsval option" where
  "answer_or_summary d =
     (case r_answer d of
        Some a \<Rightarrow> if truthy a then Some a else map_option JStr (r_summary d)
      | None \<Rightarrow> map_option JStr (r_summary d))"

definition processSynthesis :: "AgentSwarmConfig \<Rightarrow> QuDAGNode \<Rightarrow> swarm_request \<Rightarrow> node_result list \<Rightarrow> node_result" where
  "processSynthesis cfg node ctx previousDecisions =
     (let overall = calculateConsensus previousDecisions in
      empty_result\<lparr>r_type := Some ''synthesis'',
                   r_combinedInsights := Some (map answer_or_summary previousDecisions),
                   r_overallConfidence := Some overall,
                   r_recommendation :=
                     Some (if overall > consensusThreshold cfg then ''Proceed with automated handling''
                           else ''Escalate to human review'')\<rparr>)"

definition processAction :: "QuDAGNode \<Rightarrow> swarm_request \<Rightarrow> node_result" where
  "processAction node ctx =
     empty_result\<lparr>r_type := Some ''action'', r_action := Some ''notify'',
                  r_target := Some ''support_team'', r_confidence := Some 0.8\<rparr>"

definition processDecision :: "AgentSwarmConfig \<Rightarrow> QuDAGNode \<Rightarrow> swarm_request \<Rightarrow> node_result list \<Rightarrow> node_result" where
  "processDecision cfg node ctx previousDecisions =
     (let consensus = calculateConsensus previousDecisions in
      empty_result\<lparr>r_type := Some ''decision'',
                   r_decision := Some (if consensus > consensusThreshold cfg then ''approve'' else ''review''),
                   r_consensus := Some consensus,
                   r_reasoning := Some ''Based on multi-agent analysis''\<rparr>)"

text \<open>
  The \<open>switch (node.type)\<close> of \<open>executeGraph\<close>. The five kinds are all the values of the type
  of \<open>node.type\<close>, so the \<open>default\<close> branch has no counterpart.
\<close>

definition processNode :: "AgentSwarmConfig \<Rightarrow> QuDAGNode \<Rightarrow> swarm_request \<Rightarrow> node_result list \<Rightarrow> node_result" where
  "processNode cfg node ctx ds =
     (case ntype node of
        Question \<Rightarrow> processQuestion node ctx
      | Analysis \<Rightarrow> processAnalysis node ctx
      | Synthesis \<Rightarrow> processSynthesis cfg node ctx ds
      | Action \<Rightarrow> processAction node ctx
      | Decision \<Rightarrow> processDecision cfg node ctx ds)"


subsection \<open>Graph execution\<close>

text \<open>
  Everything inside the \<open>try\<close> block of \<open>executeGraph\<close> may throw. The dispatch to the node
  handlers is the parameter \<open>handler\<close>, so that a handler that fails can be expressed; the
  handlers of this repository are \<open>processNode\<close>, which always returns. The external call
  \<open>QuDAG.createFingerprint(JSON.stringify(result))\<close> is the parameter \<open>createFingerprint\<close>.
\<close>

type_synonym node_handler = "QuDAGNode \<Rightarrow> swarm_request \<Rightarrow> node_result list \<Rightarrow> failure + node_result"

type_synonym fingerprinter = "node_result \<Rightarrow> failure + jsval"

type_synonym walk_state = "(string \<times> QuDAGNode) list \<times> node_result list"

text \<open>One iteration of the loop over \<open>graph.executionOrder\<close>.\<close>

definition execute_node :: "node_handler \<Rightarrow> fingerprinter \<Rightarrow> QuDAGSwarmOrchestrator \<Rightarrow> swarm_request \<Rightarrow> walk_state \<Rightarrow> string \<Rightarrow> walk_state" where
  "execute_node handler createFingerprint orch ctx ws nodeId =
     (case map_of (fst ws) nodeId of
        None \<Rightarrow> ws
      | Some node0 \<Rightarrow>
          (let node = node0\<lparr>status := Processing\<rparr> in
           case handler node ctx (snd ws) of
             Inl e \<Rightarrow> (AList.update nodeId (node\<lparr>status := Failed\<rparr>) (fst ws), snd ws)
           | Inr res \<Rightarrow>
               (let node' = node\<lparr>result := Some res, status := Completed\<rparr>;
                    ds' = snd ws @ [res]
                in if quantumResistant (swarmConfig orch) \<and> qdagInstance orch then
                     (case createFingerprint res of
                        Inl e \<Rightarrow> (AList.update nodeId (node'\<lparr>status := Failed\<rparr>) (fst ws), ds')
                      | Inr fingerprint \<Rightarrow>
                          (AList.update nodeId
                             (node'\<lparr>node_metadata :=
                                      Some (spread (node_metadata node') (Some [(''fingerprint'', fingerprint)]))\<rparr>)
                             (fst ws), ds'))
                   else (AList.update nodeId node' (fst ws), ds'))))"

definition executeGraphWith :: "node_handler \<Rightarrow> fingerprinter \<Rightarrow> QuDAGSwarmOrchestrator \<Rightarrow> string \<Rightarrow> swarm_request \<Rightarrow> failure + QuDAGSwarmOrchestrator \<times> node_result list" where
  "executeGraphWith handler createFingerprint orch graphId ctx =
     (case map_of (graphs orch) graphId of
        None \<Rightarrow> Inl (Error (''Graph '' @ graphId @ '' not found''))
      | Some graph \<Rightarrow>
          (let ws = foldl (execute_node handler createFingerprint orch ctx) (nodes graph, [])
                      (executionOrder graph)
           in Inr (orch\<lparr>graphs := AList.update graphId (graph\<lparr>nodes := fst ws\<rparr>) (graphs orch)\<rparr>,
                   snd ws)))"

definition repository_handler :: "QuDAGSwarmOrchestrator \<Rightarrow> node_handler" where
  "repository_handler orch node ctx ds = Inr (processNode (swarmConfig orch) node ctx ds)"

definition executeGraph :: "fingerprinter \<Rightarrow> QuDAGSwarmOrchestrator \<Rightarrow> string \<Rightarrow> swarm_request \<Rightarrow> failure + QuDAGSwarmOrchestrator \<times> node_result list" where
  "executeGraph createFingerprint orch graphId ctx =
     executeGraphWith (repository_handler orch) createFingerprint orch graphId ctx"


subsection \<open>Request processing\<close>

text \<open>
  \<open>processRequest\<close> of the swarm orchestrator. The \<open>k\<close>-th identifier and timestamp that it
  draws are \<open>uuid k\<close> and \<open>clock k\<close>. The object literal passed to \<open>addNode\<close> has no \<open>id\<close>
  and no \<open>timestamp\<close>; \<open>addNode\<close> sets both.
\<close>

record swarm_result =
  sr_graph :: QuDAGGraph
  sr_decisions :: "node_result list"
  sr_consensus :: real
  sr_recommendation :: string

definition sub_question_node :: "string \<Rightarrow> string \<Rightarrow> QuDAGNode" where
  "sub_question_node rootNodeId question =
     \<lparr>node_id = [], ntype = Question, content = question, parent = Some rootNodeId, children = [],
      dependencies = [], node_confidence = None, result = None, status = Pending,
      timestamp = 0, node_metadata = None\<rparr>"

fun add_questions :: "(nat \<Rightarrow> string) \<Rightarrow> (nat \<Rightarrow> nat) \<Rightarrow> string \<Rightarrow> string \<Rightarrow> nat \<Rightarrow> string list \<Rightarrow> QuDAGSwarmOrchestrator \<Rightarrow> (failure + QuDAGSwarmOrchestrator) option" where
  "add_questions uuid clock graphId rootNodeId k [] orch = Some (Inr orch)"
| "add_questions uuid clock graphId rootNodeId k (question # qs) orch =
     (case addNode orch graphId (sub_question_node rootNodeId question) (uuid k) (clock k) of
        None \<Rightarrow> None
      | Some (Inl e) \<Rightarrow> Some (Inl e)
      | Some (Inr (orch', newNode)) \<Rightarrow> add_questions uuid clock graphId rootNodeId (Suc k) qs orch')"

definition swarm_processRequestWith :: "node_handler \<Rightarrow> fingerprinter \<Rightarrow> (nat \<Rightarrow> string) \<Rightarrow> (nat \<Rightarrow> nat) \<Rightarrow> QuDAGSwarmOrchestrator \<Rightarrow> swarm_request \<Rightarrow> (failure + QuDAGSwarmOrchestrator \<times> swarm_result) option" where
  "swarm_processRequestWith handler createFingerprint uuid clock orch req =
     (case createGraph orch (request_id req)
             (''How should we handle support request: '' @ subject req @ ''?'') (uuid 0) (clock 0) of
        (orch1, graph) \<Rightarrow>
     (case add_questions uuid clock (request_id req) (rootId graph) 1 (decomposeQuestion req) orch1 of
        None \<Rightarrow> None
      | Some (Inl e) \<Rightarrow> Some (Inl e)
      | Some (Inr orch2) \<Rightarrow>
     (case executeGraphWith handler createFingerprint orch2 (request_id req) req of
        Inl e \<Rightarrow> Some (Inl e)
      | Inr (orch3, ds) \<Rightarrow>
          (let consensus = calculateConsensus ds;
               recommendation = synthesizeRecommendation ds consensus
           in Some (Inr (orch3,
                \<lparr>sr_graph = (case map_of (graphs orch3) (request_id req) of
                               None \<Rightarrow> graph | Some g \<Rightarrow> g),
                 sr_decisions = ds, sr_consensus = consensus,
                 sr_recommendation = recommendation\<rparr>))))))"

definition swarm_processRequest :: "fingerprinter \<Rightarrow> (nat \<Rightarrow> string) \<Rightarrow> (nat \<Rightarrow> nat) \<Rightarrow> QuDAGSwarmOrchestrator \<Rightarrow> swarm_request \<Rightarrow> (failure + QuDAGSwarmOrchestrator \<times> swarm_result) option" where
  "swarm_processRequest createFingerprint uuid clock orch req =
     swarm_processRequestWith (repository_handler orch) createFingerprint uuid clock orch req"


section \<open>Predicates and concrete inputs for the properties\<close>


subsection \<open>Execution order\<close>

text \<open>
  The node ids of a graph, in the order of its node map.
\<close>

definition node_ids :: "QuDAGGraph \<Rightarrow> string set" where
  "node_ids graph = set (map fst (nodes graph))"

text \<open>
  In the sequence, every element has all its dependencies that are nodes of the graph in
  \<open>S\<close> or before it.
\<close>

fun ordered_from :: "QuDAGGraph \<Rightarrow> string set \<Rightarrow> string list \<Rightarrow> bool" where
  "ordered_from graph S [] = True"
| "ordered_from graph S (n # ns) =
     ((\<forall>d. (d, n) \<in> dep_edges graph \<and> d \<in> node_ids graph \<longrightarrow> d \<in> S)
      \<and> ordered_from graph (insert n S) ns)"

text \<open>
  The invariant of the traversal, and what a call of \<open>visit\<close> or a run of the loop adds to
  the state: only nodes from which the visited ones are reachable along the dependencies.
\<close>

definition visit_inv :: "QuDAGGraph \<Rightarrow> visit_state \<Rightarrow> bool" where
  "visit_inv graph st =
     (visited st = set (order st) \<and> distinct (order st) \<and> set (order st) \<subseteq> node_ids graph
      \<and> ordered_from graph {} (order st))"

fun reach :: "QuDAGGraph \<Rightarrow> string + string list \<Rightarrow> string set" where
  "reach graph (Inl n) = {m. (m, n) \<in> (dep_edges graph)\<^sup>*}"
| "reach graph (Inr ds) = {m. \<exists>d \<in> set ds. (m, d) \<in> (dep_edges graph)\<^sup>*}"

fun targets :: "string + string list \<Rightarrow> string set" where
  "targets (Inl n) = {n}"
| "targets (Inr ds) = set ds"

definition visit_post :: "QuDAGGraph \<Rightarrow> string + string list \<Rightarrow> visit_state \<Rightarrow> visit_state \<Rightarrow> bool" where
  "visit_post graph w st st' =
     (visit_inv graph st' \<and> targets w \<inter> node_ids graph \<subseteq> visited st'
      \<and> (\<exists>new. order st' = order st @ new \<and> set new \<subseteq> reach graph w))"

text \<open>
  The nodes on a dependency cycle are never marked as visited.
\<close>

definition on_cycle :: "QuDAGGraph \<Rightarrow> string set" where
  "on_cycle graph = {x. (x, x) \<in> (dep_edges graph)\<^sup>+}"

definition visit_safe :: "QuDAGGraph \<Rightarrow> string + string list \<Rightarrow> visit_state \<Rightarrow> visit_state \<Rightarrow> bool" where
  "visit_safe graph w st st' =
     (visited st \<subseteq> visited st' \<and> targets w \<inter> node_ids graph \<subseteq> visited st'
      \<and> (visited st \<inter> on_cycle graph = {} \<longrightarrow> visited st' \<inter> on_cycle graph = {}))"

definition demo_node :: "string \<Rightarrow> string list \<Rightarrow> QuDAGNode" where
  "demo_node i deps =
     \<lparr>node_id = i, ntype = Question, content = ''What is the urgency level?'', parent = None,
      children = [], dependencies = deps, node_confidence = None, result = None,
      status = Pending, timestamp = 0, node_metadata = None\<rparr>"

text \<open>
  A graph with dependencies, one of them (\<open>zz\<close>) not a node, and a node the root does not
  reach.
\<close>

definition demo_graph :: QuDAGGraph where
  "demo_graph =
     \<lparr>rootId = ''a'',
      nodes = [(''a'', demo_node ''a'' [''b'', ''c'']), (''b'', demo_node ''b'' [''c'', ''zz'']),
               (''c'', demo_node ''c'' []), (''d'', demo_node ''d'' [''a''])],
      edges = [], executionOrder = []\<rparr>"

text \<open>
  A graph whose root has no dependencies and whose other two nodes depend on each other.
\<close>

definition cyclic_graph :: QuDAGGraph where
  "cyclic_graph =
     \<lparr>rootId = ''a'',
      nodes = [(''a'', demo_node ''a'' []), (''b'', demo_node ''b'' [''c'']),
               (''c'', demo_node ''c'' [''b''])],
      edges = [], executionOrder = [''a'']\<rparr>"


subsection \<open>Policies\<close>

definition known_actions :: "string set" where
  "known_actions = {''require_human_approval'', ''set_confidence'', ''add_metadata''}"

text \<open>
  A rule with the action \<open>set_confidence\<close> and no \<open>parameters\<close>. Such a rule of an
  enabled policy matches for the input on some decision; every \<open>set_confidence\<close> rule of
  an enabled policy has \<open>parameters\<close>; no rule of an enabled policy has the action
  \<open>set_confidence\<close>; none has the action \<open>require_human_approval\<close>.
\<close>

definition unparameterised :: "PolicyRule \<Rightarrow> bool" where
  "unparameterised r = (rule_action r = ''set_confidence'' \<and> parameters r = None)"

definition unparameterised_rule_matches :: "js_engine \<Rightarrow> agent_input \<Rightarrow> AgentPolicy list \<Rightarrow> bool" where
  "unparameterised_rule_matches ev inp policies =
     (\<exists>p \<in> set policies. enabled p
        \<and> (\<exists>r \<in> set (rules p). unparameterised r
               \<and> (\<exists>d. evaluateCondition ev (condition r) inp d)))"

definition confidence_rules_parameterised :: "AgentPolicy list \<Rightarrow> bool" where
  "confidence_rules_parameterised policies =
     (\<forall>p \<in> set policies. enabled p \<longrightarrow> (\<forall>r \<in> set (rules p). \<not> unparameterised r))"

definition no_confidence_rules :: "AgentPolicy list \<Rightarrow> bool" where
  "no_confidence_rules policies =
     (\<forall>p \<in> set policies. enabled p \<longrightarrow> (\<forall>r \<in> set (rules p). rule_action r \<noteq> ''set_confidence''))"

definition no_approval_rules :: "AgentPolicy list \<Rightarrow> bool" where
  "no_approval_rules policies =
     (\<forall>p \<in> set policies. enabled p \<longrightarrow>
        (\<forall>r \<in> set (rules p). rule_action r \<noteq> ''require_human_approval''))"

text \<open>
  A JavaScript engine that knows two condition texts and throws on every other one, and
  that converts the empty text to 0 and every other text to \<open>NaN\<close>.
\<close>

definition demo_string_to_number :: "string \<Rightarrow> js_number" where
  "demo_string_to_number s = (if s = [] then Finite 0 else NaN)"

definition demo_engine :: js_engine where
  "demo_engine =
     \<lparr>run_condition =
        (\<lambda>cond inp d.
           if cond = ''true'' then Some True
           else if cond = ''decision.confidence < 0.8''
             then Some (less_than (to_number demo_string_to_number (confidence d)) (js_lit 0.8))
           else None),
      string_to_number = demo_string_to_number\<rparr>"

definition default_config :: agent_config where
  "default_config =
     \<lparr>confidenceThreshold = js_lit 0.8, autoReplyEnabled = True, humanReviewRequired = True\<rparr>"

definition strict_config :: agent_config where
  "strict_config =
     \<lparr>confidenceThreshold = js_lit 0.9, autoReplyEnabled = True, humanReviewRequired = False\<rparr>"




definition throwing_rule :: PolicyRule where
  "throwing_rule = \<lparr>condition = ''input.customer.tier === 1'',
                     rule_action = ''require_human_approval'', parameters = None\<rparr>"

definition unknown_action_rule :: PolicyRule where
  "unknown_action_rule = \<lparr>condition = ''true'', rule_action = ''notify_slack'', parameters = None\<rparr>"

definition lower_confidence_rule :: PolicyRule where
  "lower_confidence_rule = \<lparr>condition = ''true'', rule_action = ''set_confidence'',
                            parameters = Some [(''value'', JNum (js_lit 0.4))]\<rparr>"

definition mixed_policy :: AgentPolicy where
  "mixed_policy =
     \<lparr>policy_id = ''mixed'', policy_name = ''Mixed rules'',
      rules = [throwing_rule, unknown_action_rule, lower_confidence_rule],
      priority = 1, enabled = True\<rparr>"






subsection \<open>Requests and summaries\<close>

definition urgent_request :: support_request where
  "urgent_request =
     \<lparr>subject = ''URGENT: Production down'', body = ''Critical issue, need help ASAP'',
      sender = ''user@test.com'', issueNumber = None\<rparr>"

definition vague_request :: support_request where
  "vague_request = \<lparr>subject = ''Hi'', body = ''Something is off'', sender = ''user@test.com'',
                     issueNumber = None\<rparr>"

definition how_to_request :: support_request where
  "how_to_request = \<lparr>subject = ''How to reset'', body = ''What is the way? Thanks.'',
                      sender = ''user@test.com'', issueNumber = None\<rparr>"


text \<open>
  The confidence of \<open>TriageAgent\<close> as the specification words it, over the real numbers:
  the last increment is given "if exactly one category matched".
\<close>

definition worded_triage_confidence :: "support_request \<Rightarrow> real" where
  "worded_triage_confidence inp =
     min 1 (0.5 + (if hd (categorize inp) \<noteq> ''general'' then 0.2 else 0)
              + (if prioritize (categorize inp) \<noteq> ''normal'' then 0.2 else 0)
              + (if length (matched_categories inp) = 1 then 0.1 else 0))"

text \<open>
  The confidences of the collected decisions as numbers, and "the maximum of the numbers is
  strictly above \<open>t\<close>": none of them is \<open>NaN\<close> and one of them is above \<open>t\<close>.
\<close>

definition confidences :: "js_engine \<Rightarrow> AgentDecision list \<Rightarrow> js_number list" where
  "confidences ev ds = map (\<lambda>d. to_number (string_to_number ev) (confidence d)) ds"


definition unknown_intent_context :: reply_context where
  "unknown_intent_context = \<lparr>request = vague_request, triage = None\<rparr>"

definition hello_summary_decision :: AgentDecision where
  "hello_summary_decision =
     \<lparr>action = ''summarize'', confidence = Number (js_lit 0.85),
      reasoning = ''Generated summary of input text'',
      requiresHumanApproval = False, suggestedResponse = Some ''Hello world.'',
      metadata = Some [(''originalLength'', JNum 12), (''summaryLength'', JNum 12)]\<rparr>"

text \<open>
  The summary before truncation: \<open>importantSentences.join(' ')\<close>.
\<close>

definition joined_sentences :: "string \<Rightarrow> string" where
  "joined_sentences text =
     join '' '' (map fst (take 3 (sort_key (\<lambda>s. - snd s)
                                   (map (\<lambda>s. (trim s, scoreSentence s)) (match_sentences text)))))"


subsection \<open>Graph execution\<close>

text \<open>
  What a caller sees of an execution: the status of every node and the returned decisions.
\<close>

definition graph_nodes_of :: "failure + QuDAGSwarmOrchestrator \<times> node_result list \<Rightarrow> string \<Rightarrow> (string \<times> QuDAGNode) list" where
  "graph_nodes_of outcome graphId =
     (case outcome of
        Inl e \<Rightarrow> []
      | Inr (orch, ds) \<Rightarrow> (case map_of (graphs orch) graphId of None \<Rightarrow> [] | Some graph \<Rightarrow> nodes graph))"

definition node_statuses :: "failure + QuDAGSwarmOrchestrator \<times> node_result list \<Rightarrow> string \<Rightarrow> (string \<times> node_status) list" where
  "node_statuses outcome graphId = map (\<lambda>(k, node). (k, status node)) (graph_nodes_of outcome graphId)"

definition returned_decisions :: "failure + QuDAGSwarmOrchestrator \<times> node_result list \<Rightarrow> node_result list" where
  "returned_decisions outcome = (case outcome of Inl e \<Rightarrow> [] | Inr (orch, ds) \<Rightarrow> ds)"

definition question_node :: "string \<Rightarrow> string \<Rightarrow> QuDAGNode" where
  "question_node i q =
     \<lparr>node_id = i, ntype = Question, content = q, parent = None,
      children = [], dependencies = [], node_confidence = None, result = None,
      status = Pending, timestamp = 0, node_metadata = None\<rparr>"

definition walk_graph :: QuDAGGraph where
  "walk_graph =
     \<lparr>rootId = ''a'',
      nodes = [(''a'', question_node ''a'' ''Can this fail?''),
               (''b'', question_node ''b'' ''What is the urgency level?''),
               (''c'', question_node ''c'' ''What is the estimated resolution time?'')],
      edges = [], executionOrder = [''a'', ''b'', ''c'']\<rparr>"

definition fingerprinting_orchestrator :: QuDAGSwarmOrchestrator where
  "fingerprinting_orchestrator =
     \<lparr>graphs = [(''req-1'', walk_graph)],
      swarmConfig = \<lparr>maxAgents = 10, consensusThreshold = 0.7, quantumResistant = True,
                     darkAddressing = True, onionRouting = False\<rparr>,
      qdagInstance = True\<rparr>"

definition urgent_context :: swarm_request where
  "urgent_context = \<lparr>subject = ''Urgent outage'', body = ''Everything is down'',
                      sender = ''user@test.com'', issueNumber = None, request_id = ''req-1''\<rparr>"

text \<open>
  A fingerprint call that always fails, one that fails on the answer \<open>high\<close>, and a
  dispatch whose handler fails on one question.
\<close>

definition failing_fingerprint :: fingerprinter where
  "failing_fingerprint res = Inl (Error ''QuDAG node unreachable'')"

definition picky_fingerprint :: fingerprinter where
  "picky_fingerprint res =
     (if r_answer res = Some (JStr ''high'') then Inl (Error ''QuDAG node unreachable'')
      else Inr (JStr ''fp''))"

definition flaky_handler :: "QuDAGSwarmOrchestrator \<Rightarrow> node_handler" where
  "flaky_handler orch node ctx ds =
     (if content node = ''Can this fail?'' then Inl (Error ''handler failed'')
      else repository_handler orch node ctx ds)"

text \<open>
  No node of the graph has a dependency, as in the graphs that \<open>processRequest\<close> builds.
\<close>

definition no_dependencies :: "QuDAGGraph \<Rightarrow> bool" where
  "no_dependencies graph =
     (\<forall>k node. map_of (nodes graph) k = Some node \<longrightarrow> dependencies node = [])"

text \<open>
  The step "update parent's children" of \<open>addNode\<close>.
\<close>

definition attach_child :: "string option \<Rightarrow> string \<Rightarrow> (string \<times> QuDAGNode) list \<Rightarrow> (string \<times> QuDAGNode) list" where
  "attach_child par u nodes1 =
     (case par of
        None \<Rightarrow> nodes1
      | Some p \<Rightarrow>
          if p = [] then nodes1
          else (case map_of nodes1 p of
                  None \<Rightarrow> nodes1
                | Some parentNode \<Rightarrow>
                    AList.update p (parentNode\<lparr>children := children parentNode @ [u]\<rparr>) nodes1))"


section \<open>Rounding to doubles\<close>

lemma binade_scaled:
  "k \<le> n \<Longrightarrow> 0 < q \<Longrightarrow> 2 ^ 52 \<le> q * 2 ^ k \<Longrightarrow> q * 2 ^ k < 2 ^ 53
     \<Longrightarrow> binade n q e = (q * 2 ^ k, e - int k)"
proof (induction k arbitrary: n q e)
  case 0
  then show ?case by (cases n) simp_all
next
  case (Suc k)
  then obtain m where n: "n = Suc m" and km: "k \<le> m" by (cases n) auto
  have "q * 2 ^ k < 2 ^ 52" using Suc.prems(4) by simp
  moreover have "q \<le> q * 2 ^ k" using Suc.prems(2) by simp
  ultimately have small: "q < 2 ^ 52" by linarith
  have "binade m (2 * q) (e - 1) = (2 * q * 2 ^ k, e - 1 - int k)"
    using Suc.prems by (intro Suc.IH km) (simp_all add: mult.assoc mult.left_commute)
  then show ?case using small by (simp add: n mult.assoc mult.left_commute)
qed

text \<open>
  A positive number below \<open>2 ^ 52\<close> is rounded on the grid of the multiples of \<open>2 ^ - k\<close>,
  where \<open>k\<close> is the number of doublings that bring it into the range of 53-bit integers.
\<close>

lemma js_round_scaled:
  assumes "0 < x" "2 ^ 52 \<le> x * 2 ^ k" "x * 2 ^ k < 2 ^ 53" "k \<le> 2200"
  shows "js_round x = of_int (round_half_even (x * 2 ^ k)) / 2 ^ k"
proof -
  have "binade 2200 \<bar>x\<bar> 0 = (x * 2 ^ k, - int k)"
    using binade_scaled [of k 2200 x 0] assms by simp
  then show ?thesis using assms(1) by (simp add: js_round_def power_int_minus field_simps)
qed

text \<open>The doubles that the literals of the agents denote.\<close>

lemma js_lit_values:
  "js_lit 0.5 = 1 / 2"
  "js_lit 1.0 = 1"
  "js_lit 0.6 = 5404319552844595 / 2 ^ 53"
  "js_lit 0.7 = 6305039478318694 / 2 ^ 53"
  "js_lit 0.8 = 7205759403792794 / 2 ^ 53"
  "js_lit 0.85 = 7656119366529843 / 2 ^ 53"
  "js_lit 0.9 = 8106479329266893 / 2 ^ 53"
  "js_lit 0.7999999999999999 = 7205759403792793 / 2 ^ 53"
  "js_lit 0.8999999999999999 = 8106479329266892 / 2 ^ 53"
  "js_lit 0.9999999999999999 = 9007199254740991 / 2 ^ 53"
  "js_lit 0.4 = 3602879701896397 / 2 ^ 53"
  "js_lit 0.3 = 5404319552844595 / 2 ^ 54"
  "js_lit 0.2 = 3602879701896397 / 2 ^ 54"
  "js_lit 0.1 = 3602879701896397 / 2 ^ 55"
  by (simp_all add: js_lit_def js_round_scaled [of _ 52] js_round_scaled [of _ 53]
      js_round_scaled [of _ 54] js_round_scaled [of _ 55] js_round_scaled [of _ 56]
      round_half_even_def Let_def)

text \<open>The same values for the arguments in lowest terms.\<close>

lemma js_lit_simps:
  "js_lit (1 / 2) = 1 / 2"
  "js_lit 1 = 1"
  "js_lit (3 / 5) = 5404319552844595 / 2 ^ 53"
  "js_lit (7 / 10) = 6305039478318694 / 2 ^ 53"
  "js_lit (4 / 5) = 7205759403792794 / 2 ^ 53"
  "js_lit (17 / 20) = 7656119366529843 / 2 ^ 53"
  "js_lit (9 / 10) = 8106479329266893 / 2 ^ 53"
  "js_lit (7999999999999999 / 10000000000000000) = 7205759403792793 / 2 ^ 53"
  "js_lit (8999999999999999 / 10000000000000000) = 8106479329266892 / 2 ^ 53"
  "js_lit (9999999999999999 / 10000000000000000) = 9007199254740991 / 2 ^ 53"
  "js_lit (2 / 5) = 3602879701896397 / 2 ^ 53"
  "js_lit (3 / 10) = 5404319552844595 / 2 ^ 54"
  "js_lit (1 / 5) = 3602879701896397 / 2 ^ 54"
  "js_lit (1 / 10) = 3602879701896397 / 2 ^ 55"
  using js_lit_values by simp_all

text \<open>
  The sums of \<open>TriageAgent.evaluateConfidence\<close>: \<open>0.5 + 0.2\<close> is the double 0.7, and adding
  0.1 or 0.2 to it falls just short of 0.8 and 0.9.
\<close>

lemma js_add_values:
  "js_add (js_lit 0.5) (js_lit 0.1) = js_lit 0.6"
  "js_add (js_lit 0.5) (js_lit 0.2) = js_lit 0.7"
  "js_add (js_lit 0.7) (js_lit 0.1) = js_lit 0.7999999999999999"
  "js_add (js_lit 0.7) (js_lit 0.2) = js_lit 0.8999999999999999"
  "js_add (js_lit 0.8999999999999999) (js_lit 0.1) = js_lit 0.9999999999999999"
  by (simp_all add: js_add_def js_lit_simps js_round_scaled [of _ 53] round_half_even_def Let_def)

lemma js_add_zero:
  "js_add (js_lit 0.5) 0 = js_lit 0.5"
  "js_add (js_lit 0.6) 0 = js_lit 0.6"
  "js_add (js_lit 0.7) 0 = js_lit 0.7"
  "js_add (js_lit 0.7999999999999999) 0 = js_lit 0.7999999999999999"
  "js_add (js_lit 0.8999999999999999) 0 = js_lit 0.8999999999999999"
  by (simp_all add: js_add_def js_lit_simps js_round_scaled [of _ 53] round_half_even_def Let_def)

lemma triage_values:
  "triage_evaluateConfidence [''general''] ''normal'' = js_lit 0.6"
  "triage_evaluateConfidence [''question''] ''normal'' = js_lit 0.7999999999999999"
  "triage_evaluateConfidence [''urgent'', ''question''] ''high'' = js_lit 0.8999999999999999"
  "triage_evaluateConfidence [''bug''] ''medium'' = js_lit 0.9999999999999999"
  by (simp_all add: triage_evaluateConfidence_def js_add_def js_lit_simps js_round_scaled [of _ 53]
      round_half_even_def Let_def)


section \<open>Consensus scoring\<close>

lemma foldl_plus_sum_list: "foldl (\<lambda>a b. a + b) a xs = a + sum_list (xs :: real list)"
  by (induction xs arbitrary: a) simp_all

lemma foldl_squares: "foldl (\<lambda>sum c. sum + (c - m) ^ 2) a xs = a + (\<Sum>c\<leftarrow>xs. (c - m) ^ 2)"
  for xs :: "real list"
  by (induction xs arbitrary: a) simp_all

lemma decision_confidence_spec: "decision_confidence d = spec_confidence d"
  by (simp add: decision_confidence_def spec_confidence_def split: option.splits)

lemma calculateConsensus_refines: "calculateConsensus ds = spec_consensus ds"
proof -
  let ?cs = "filter (\<lambda>c. 0 < c) (map spec_confidence ds)"
  have same: "filter (\<lambda>c. c > 0) (map decision_confidence ds) = ?cs"
    by (simp add: decision_confidence_spec [abs_def])
  show ?thesis
  proof (cases "?cs = []")
    case True
    then show ?thesis
      by (simp add: calculateConsensus_def spec_consensus_def same Let_def)
  next
    case False
    then have "ds \<noteq> []" by auto
    with False show ?thesis
      by (simp add: calculateConsensus_def spec_consensus_def same Let_def
          foldl_plus_sum_list foldl_squares mean_def population_variance_def min.commute max.commute)
  qed
qed

lemma calculateConsensus_single:
  assumes "0 < c" "c \<le> 1" "r_confidence d = Some c"
  shows "calculateConsensus [d] = c"
  using assms by (simp add: calculateConsensus_def decision_confidence_def Let_def)

text \<open>
  Claim C2. \<open>calculateConsensus\<close> computes the consensus of the specification: 0 when no
  decision carries a positive confidence (the \<open>confidence\<close> field, else \<open>overallConfidence\<close>,
  else 0), otherwise the mean of the positive confidences times one minus the square root of
  their population variance, clamped to the interval from 0 to 1. The consensus of the empty
  list is 0, and the consensus of a single decision whose confidence \<open>c\<close> lies in (0, 1] is
  \<open>c\<close>.
\<close>

theorem consensus_formula:
  "calculateConsensus ds = spec_consensus ds \<and> calculateConsensus [] = 0
   \<and> (\<forall>c d. 0 < c \<and> c \<le> 1 \<and> r_confidence d = Some c \<longrightarrow> calculateConsensus [d] = c)"
  using calculateConsensus_refines calculateConsensus_single
  by (simp add: calculateConsensus_def)

theorem consensus_formula_witness:
  "(0::real) < 0.95 \<and> (0.95::real) \<le> 1
   \<and> r_confidence (answer_result (JStr ''high'') 0.95) = Some 0.95
   \<and> calculateConsensus [answer_result (JStr ''high'') 0.95] = 0.95
   \<and> calculateConsensus [answer_result (JStr ''high'') 0.95,
        empty_result\<lparr>r_overallConfidence := Some 0.95\<rparr>, empty_result] = 0.95"
proof -
  let ?d = "answer_result (JStr ''high'') 0.95"
  let ?ds = "[?d, empty_result\<lparr>r_overallConfidence := Some 0.95\<rparr>, empty_result]"
  have pre: "(0::real) < 0.95 \<and> (0.95::real) \<le> 1 \<and> r_confidence ?d = Some 0.95"
    by (simp add: answer_result_def)
  have "\<forall>c d. 0 < c \<and> c \<le> 1 \<and> r_confidence d = Some c \<longrightarrow> calculateConsensus [d] = c"
    using consensus_formula [of ?ds] by blast
  with pre have single: "calculateConsensus [?d] = 0.95"
    by blast
  have "calculateConsensus ?ds = spec_consensus ?ds"
    using consensus_formula [of ?ds] by blast
  also have "spec_consensus ?ds = 0.95"
    by (simp add: spec_consensus_def spec_confidence_def answer_result_def empty_result_def
        mean_def population_variance_def)
  finally show ?thesis using pre single by blast
qed


section \<open>Execution order\<close>

lemma dep_edges_iff:
  "(d, n) \<in> dep_edges graph \<longleftrightarrow>
     (\<exists>node. map_of (nodes graph) n = Some node \<and> d \<in> set (dependencies node))"
  by (auto simp: dep_edges_def split: option.splits dest: map_of_SomeD intro: rev_bexI)

lemma node_ids_iff: "n \<in> node_ids graph \<longleftrightarrow> (\<exists>node. map_of (nodes graph) n = Some node)"
proof -
  have "n \<in> node_ids graph \<longleftrightarrow> map_of (nodes graph) n \<noteq> None"
    by (simp add: node_ids_def map_of_eq_None_iff)
  then show ?thesis by auto
qed

lemma finite_dep_edges: "finite (dep_edges graph)"
  by (auto simp: dep_edges_def split: option.splits)

lemma ordered_from_snoc:
  "ordered_from graph S (xs @ [n]) \<longleftrightarrow>
     ordered_from graph S xs
     \<and> (\<forall>d. (d, n) \<in> dep_edges graph \<and> d \<in> node_ids graph \<longrightarrow> d \<in> S \<union> set xs)"
  by (induction xs arbitrary: S) auto

lemma visit_loop_Inl:
  "visit_loop graph (Inl nodeId) st =
     (if nodeId \<in> visited st then Some st
      else (case map_of (nodes graph) nodeId of
              None \<Rightarrow> Some st
            | Some node \<Rightarrow>
                Option.bind (visit_loop graph (Inr (dependencies node)) st)
                  (\<lambda>st'. Some (st'\<lparr>visited := insert nodeId (visited st'),
                                    order := order st' @ [nodeId]\<rparr>))))"
  by (subst visit_loop.simps) simp

lemma visit_loop_Nil: "visit_loop graph (Inr []) st = Some st"
  by (subst visit_loop.simps) simp

lemma visit_loop_Cons:
  "visit_loop graph (Inr (depId # ids)) st =
     Option.bind (visit_loop graph (Inl depId) st) (\<lambda>st'. visit_loop graph (Inr ids) st')"
  by (subst visit_loop.simps) simp

lemma visit_each_total:
  assumes each: "\<And>d st. d \<in> set ds \<Longrightarrow> visit_inv graph st \<Longrightarrow>
             \<exists>st'. visit_loop graph (Inl d) st = Some st' \<and> visit_post graph (Inl d) st st'"
    and inv: "visit_inv graph st"
  shows "\<exists>st'. visit_loop graph (Inr ds) st = Some st' \<and> visit_post graph (Inr ds) st st'"
  using each inv
proof (induction ds arbitrary: st)
  case Nil
  then show ?case by (simp add: visit_loop_Nil visit_post_def)
next
  case (Cons d ds)
  from Cons.prems obtain st1 where
    s1: "visit_loop graph (Inl d) st = Some st1" and p1: "visit_post graph (Inl d) st st1"
    by (meson list.set_intros(1))
  from p1 have inv1: "visit_inv graph st1" by (simp add: visit_post_def)
  from Cons.IH [OF _ inv1] Cons.prems(1) obtain st2 where
    s2: "visit_loop graph (Inr ds) st1 = Some st2" and p2: "visit_post graph (Inr ds) st1 st2"
    by (meson list.set_intros(2))
  from p1 obtain new1 where n1: "order st1 = order st @ new1" "set new1 \<subseteq> reach graph (Inl d)"
    by (auto simp: visit_post_def)
  from p2 obtain new2 where n2: "order st2 = order st1 @ new2" "set new2 \<subseteq> reach graph (Inr ds)"
    by (auto simp: visit_post_def)
  have inv2: "visit_inv graph st2" using p2 by (simp add: visit_post_def)
  have "visited st1 \<subseteq> visited st2"
    using inv1 inv2 n2 by (auto simp: visit_inv_def)
  then have tg: "targets (Inr (d # ds)) \<inter> node_ids graph \<subseteq> visited st2"
    using p1 p2 by (auto simp: visit_post_def)
  have "order st2 = order st @ (new1 @ new2)" using n1 n2 by simp
  moreover have "set (new1 @ new2) \<subseteq> reach graph (Inr (d # ds))"
    using n1 n2 by auto
  ultimately have "visit_post graph (Inr (d # ds)) st st2"
    using inv2 tg unfolding visit_post_def by blast
  moreover have "visit_loop graph (Inr (d # ds)) st = Some st2"
    by (simp add: visit_loop_Cons s1 s2)
  ultimately show ?case by blast
qed

lemma visit_total:
  assumes wf: "wf (dep_edges graph)"
  shows "visit_inv graph st \<Longrightarrow>
          \<exists>st'. visit_loop graph (Inl n) st = Some st' \<and> visit_post graph (Inl n) st st'"
  using wf
proof (induction n arbitrary: st rule: wf_induct_rule)
  case (less n)
  note inv = less.prems
  show ?case
  proof (cases "n \<in> visited st")
    case True
    then have "visit_loop graph (Inl n) st = Some st" by (simp add: visit_loop_Inl)
    moreover have "visit_post graph (Inl n) st st"
      using True inv by (auto simp: visit_post_def)
    ultimately show ?thesis by blast
  next
    case unvisited: False
    show ?thesis
    proof (cases "map_of (nodes graph) n")
      case None
      then have "visit_loop graph (Inl n) st = Some st"
        using unvisited by (simp add: visit_loop_Inl)
      moreover have "n \<notin> node_ids graph" using None by (simp add: node_ids_iff)
      then have "visit_post graph (Inl n) st st"
        using inv by (simp add: visit_post_def)
      ultimately show ?thesis by blast
    next
      case (Some node)
      let ?ds = "dependencies node"
      have below: "(d, n) \<in> dep_edges graph" if "d \<in> set ?ds" for d
        using that Some by (auto simp: dep_edges_iff)
      have "\<exists>st'. visit_loop graph (Inr ?ds) st = Some st' \<and> visit_post graph (Inr ?ds) st st'"
        by (rule visit_each_total [OF _ inv]) (use below less.IH in blast)
      then obtain st1 where
        s1: "visit_loop graph (Inr ?ds) st = Some st1" and p1: "visit_post graph (Inr ?ds) st st1"
        by blast
      from p1 obtain new1 where
        n1: "order st1 = order st @ new1" "set new1 \<subseteq> reach graph (Inr ?ds)"
        by (auto simp: visit_post_def)
      from p1 have inv1: "visit_inv graph st1" by (simp add: visit_post_def)
      let ?st' = "st1\<lparr>visited := insert n (visited st1), order := order st1 @ [n]\<rparr>"
      have run: "visit_loop graph (Inl n) st = Some ?st'"
        using unvisited Some s1 by (simp add: visit_loop_Inl)
      have "n \<notin> set new1"
      proof
        assume "n \<in> set new1"
        with n1 obtain d where "d \<in> set ?ds" "(n, d) \<in> (dep_edges graph)\<^sup>*" by auto
        with below have "(n, n) \<in> (dep_edges graph)\<^sup>+" by (meson rtrancl_into_trancl1)
        with wf show False by (meson wf_acyclic acyclic_def)
      qed
      moreover have "n \<notin> set (order st)" using unvisited inv by (simp add: visit_inv_def)
      ultimately have fresh: "n \<notin> set (order st1)" using n1 by simp
      have nid: "n \<in> node_ids graph" using Some by (auto simp: node_ids_iff)
      have deps_done: "d \<in> set (order st1)"
        if "(d, n) \<in> dep_edges graph" "d \<in> node_ids graph" for d
      proof -
        from that(1) Some have "d \<in> set ?ds" by (auto simp: dep_edges_iff)
        with that(2) p1 inv1 show ?thesis by (auto simp: visit_post_def visit_inv_def)
      qed
      have inv': "visit_inv graph ?st'"
        using inv1 fresh nid deps_done by (auto simp: visit_inv_def ordered_from_snoc)
      have "set (new1 @ [n]) \<subseteq> reach graph (Inl n)"
      proof
        fix m assume "m \<in> set (new1 @ [n])"
        then consider "m = n" | "m \<in> set new1" by auto
        then show "m \<in> reach graph (Inl n)"
        proof cases
          case 1
          then show ?thesis by simp
        next
          case 2
          with n1 obtain d where "d \<in> set ?ds" "(m, d) \<in> (dep_edges graph)\<^sup>*" by auto
          with below show ?thesis by (auto intro: rtrancl_into_rtrancl)
        qed
      qed
      moreover have "order ?st' = order st @ (new1 @ [n])" using n1 by simp
      moreover have "targets (Inl n) \<inter> node_ids graph \<subseteq> visited ?st'" by auto
      ultimately have "visit_post graph (Inl n) st ?st'"
        using inv' unfolding visit_post_def by blast
      with run show ?thesis by blast
    qed
  qed
qed


lemma ordered_from_precedes:
  "ordered_from graph S xs \<Longrightarrow> n \<in> set xs \<Longrightarrow> (d, n) \<in> dep_edges graph \<Longrightarrow>
     d \<in> node_ids graph \<Longrightarrow> d \<in> S \<or> precedes d n xs"
proof (induction xs arbitrary: S)
  case Nil
  then show ?case by simp
next
  case (Cons m ms)
  show ?case
  proof (cases "n = m")
    case True
    with Cons.prems show ?thesis by auto
  next
    case False
    with Cons.prems have "n \<in> set ms" "ordered_from graph (insert m S) ms" by auto
    from Cons.IH [OF this(2) this(1) Cons.prems(3,4)]
    consider "d = m" | "d \<in> S" | "precedes d n ms" by auto
    then show ?thesis
    proof cases
      case 1
      from \<open>n \<in> set ms\<close> obtain k where "k < length ms" "ms ! k = n"
        by (auto simp: in_set_conv_nth)
      then have "Suc k < length (m # ms) \<and> 0 < Suc k \<and> (m # ms) ! 0 = d \<and> (m # ms) ! Suc k = n"
        using 1 by simp
      then show ?thesis unfolding precedes_def by blast
    next
      case 2
      then show ?thesis by simp
    next
      case 3
      then obtain j i where "j < length ms" "i < j" "ms ! i = d" "ms ! j = n"
        by (auto simp: precedes_def)
      then have "Suc j < length (m # ms) \<and> Suc i < Suc j \<and> (m # ms) ! Suc i = d \<and> (m # ms) ! Suc j = n"
        by simp
      then show ?thesis unfolding precedes_def by blast
    qed
  qed
qed

lemma updateExecutionOrder_acyclic:
  assumes "acyclic (dep_edges graph)"
  shows "\<exists>xs. updateExecutionOrder graph = Some (graph\<lparr>executionOrder := xs\<rparr>)
           \<and> distinct xs \<and> set xs = node_ids graph \<and> ordered_from graph {} xs"
proof -
  have wf: "wf (dep_edges graph)"
    using assms finite_dep_edges by (rule finite_acyclic_wf [rotated])
  let ?st0 = "\<lparr>visited = {}, order = []\<rparr>"
  have inv0: "visit_inv graph ?st0" by (simp add: visit_inv_def)
  from visit_total [OF wf inv0] obtain st1 where
    s1: "visit_loop graph (Inl (rootId graph)) ?st0 = Some st1"
    and p1: "visit_post graph (Inl (rootId graph)) ?st0 st1"
    by blast
  from p1 have inv1: "visit_inv graph st1" by (simp add: visit_post_def)
  have "\<exists>st'. visit_loop graph (Inr (map fst (nodes graph))) st1 = Some st'
          \<and> visit_post graph (Inr (map fst (nodes graph))) st1 st'"
    by (rule visit_each_total [OF _ inv1]) (use visit_total [OF wf] in blast)
  then obtain st2 where
    s2: "visit_loop graph (Inr (map fst (nodes graph))) st1 = Some st2"
    and p2: "visit_post graph (Inr (map fst (nodes graph))) st1 st2"
    by blast
  from p2 have inv2: "visit_inv graph st2" and all: "node_ids graph \<subseteq> visited st2"
    by (auto simp: visit_post_def node_ids_def)
  have "updateExecutionOrder graph = Some (graph\<lparr>executionOrder := order st2\<rparr>)"
    by (simp add: updateExecutionOrder_def visit_def visit_each_def s1 s2)
  moreover have "distinct (order st2)" "ordered_from graph {} (order st2)"
    using inv2 by (simp_all add: visit_inv_def)
  moreover have "set (order st2) = node_ids graph"
    using inv2 all by (auto simp: visit_inv_def)
  ultimately show ?thesis by blast
qed

lemma dep_edges_target_node: "(d, n) \<in> dep_edges graph \<Longrightarrow> n \<in> node_ids graph"
  by (auto simp: dep_edges_iff node_ids_iff)

lemma on_cycle_dependency:
  assumes "n \<in> on_cycle graph"
  shows "\<exists>y. (y, n) \<in> dep_edges graph \<and> y \<in> on_cycle graph \<and> y \<in> node_ids graph"
proof -
  from assms have "(n, n) \<in> (dep_edges graph)\<^sup>+" by (simp add: on_cycle_def)
  then obtain y where y: "(n, y) \<in> (dep_edges graph)\<^sup>*" "(y, n) \<in> dep_edges graph"
    by (meson tranclD2)
  then have "(y, y) \<in> (dep_edges graph)\<^sup>+" by (meson rtrancl_into_trancl2)
  moreover have "y \<in> node_ids graph"
  proof (cases "n = y")
    case True
    with y(2) show ?thesis by (auto dest: dep_edges_target_node)
  next
    case False
    with y(1) obtain z where "(z, y) \<in> dep_edges graph" by (meson rtranclE)
    then show ?thesis by (rule dep_edges_target_node)
  qed
  ultimately show ?thesis using y(2) by (auto simp: on_cycle_def)
qed

lemma visit_loop_partial:
  assumes "visit_loop graph w st = Some st'"
  shows "visit_safe graph w st st'"
proof (rule visit_loop.raw_induct [where P = visit_safe, OF _ assms], goal_cases)
  case (1 vl graph w st st')
  show ?case
  proof (cases w)
    case (Inl n)
    show ?thesis
    proof (cases "n \<in> visited st")
      case True
      with 1(2) Inl show ?thesis by (auto simp: visit_safe_def)
    next
      case unvisited: False
      show ?thesis
      proof (cases "map_of (nodes graph) n")
        case None
        then have "n \<notin> node_ids graph" by (simp add: node_ids_iff)
        with 1(2) Inl unvisited None show ?thesis by (auto simp: visit_safe_def)
      next
        case (Some node)
        with 1(2) Inl unvisited obtain st1 where
          s1: "vl graph (Inr (dependencies node)) st = Some st1"
          and st': "st' = st1\<lparr>visited := insert n (visited st1), order := order st1 @ [n]\<rparr>"
          by (auto split: bind_splits)
        from 1(1) [OF s1] have
          mono: "visited st \<subseteq> visited st1"
          and deps_in: "set (dependencies node) \<inter> node_ids graph \<subseteq> visited st1"
          and clean: "visited st \<inter> on_cycle graph = {} \<longrightarrow> visited st1 \<inter> on_cycle graph = {}"
          by (auto simp: visit_safe_def)
        have "n \<notin> on_cycle graph" if "visited st \<inter> on_cycle graph = {}"
        proof
          assume "n \<in> on_cycle graph"
          then obtain y where y: "(y, n) \<in> dep_edges graph" "y \<in> on_cycle graph" "y \<in> node_ids graph"
            using on_cycle_dependency by blast
          from y(1) Some have "y \<in> set (dependencies node)" by (auto simp: dep_edges_iff)
          with y(3) deps_in have "y \<in> visited st1" by auto
          with y(2) clean that show False by auto
        qed
        with mono clean st' Inl show ?thesis by (auto simp: visit_safe_def)
      qed
    qed
  next
    case (Inr ds)
    show ?thesis
    proof (cases ds)
      case Nil
      with 1(2) Inr show ?thesis by (auto simp: visit_safe_def)
    next
      case (Cons d ds')
      with 1(2) Inr obtain st1 where
        s1: "vl graph (Inl d) st = Some st1" and s2: "vl graph (Inr ds') st1 = Some st'"
        by (auto split: bind_splits)
      from 1(1) [OF s1] 1(1) [OF s2] Inr Cons show ?thesis by (auto simp: visit_safe_def)
    qed
  qed
qed

lemma updateExecutionOrder_returns_acyclic:
  assumes "updateExecutionOrder graph = Some graph'"
  shows "acyclic (dep_edges graph)"
proof -
  from assms obtain st1 st2 where
    s1: "visit_loop graph (Inl (rootId graph)) \<lparr>visited = {}, order = []\<rparr> = Some st1"
    and s2: "visit_loop graph (Inr (map fst (nodes graph))) st1 = Some st2"
    by (auto simp: updateExecutionOrder_def visit_def visit_each_def split: bind_splits)
  from visit_loop_partial [OF s1] have "visited st1 \<inter> on_cycle graph = {}"
    by (simp add: visit_safe_def)
  with visit_loop_partial [OF s2] have
    "visited st2 \<inter> on_cycle graph = {}" "node_ids graph \<subseteq> visited st2"
    by (auto simp: node_ids_def visit_safe_def)
  then have "node_ids graph \<inter> on_cycle graph = {}" by auto
  moreover have "on_cycle graph \<subseteq> node_ids graph"
    using on_cycle_dependency dep_edges_target_node by blast
  ultimately have "on_cycle graph = {}" by auto
  then show ?thesis by (auto simp: acyclic_def on_cycle_def)
qed

lemma visit_loop_nodes_Some:
  assumes "visit_loop graph w st = Some st'"
  shows "\<forall>graph' :: QuDAGGraph. nodes graph' = nodes graph \<longrightarrow> visit_loop graph' w st = Some st'"
proof (rule visit_loop.raw_induct
    [where P = "\<lambda>graph w st st'. \<forall>graph' :: QuDAGGraph. nodes graph' = nodes graph \<longrightarrow> visit_loop graph' w st = Some st'",
      OF _ assms], goal_cases)
  case (1 vl graph w st st')
  show ?case
  proof (intro allI impI)
    fix graph' :: QuDAGGraph assume same: "nodes graph' = nodes graph"
    show "visit_loop graph' w st = Some st'"
    proof (cases w)
      case (Inl n)
      show ?thesis
      proof (cases "n \<in> visited st \<or> map_of (nodes graph) n = None")
        case True
        with 1(2) Inl same show ?thesis by (auto simp: visit_loop_Inl)
      next
        case False
        then obtain node where node: "map_of (nodes graph) n = Some node" "n \<notin> visited st" by auto
        with 1(2) Inl obtain st1 where
          s1: "vl graph (Inr (dependencies node)) st = Some st1"
          and st': "st' = st1\<lparr>visited := insert n (visited st1), order := order st1 @ [n]\<rparr>"
          by (auto split: bind_splits)
        from 1(1) [OF s1] same have "visit_loop graph' (Inr (dependencies node)) st = Some st1"
          by blast
        with node same st' Inl show ?thesis by (simp add: visit_loop_Inl)
      qed
    next
      case (Inr ds)
      show ?thesis
      proof (cases ds)
        case Nil
        with 1(2) Inr show ?thesis by (simp add: visit_loop_Nil)
      next
        case (Cons d ds')
        with 1(2) Inr obtain st1 where
          s1: "vl graph (Inl d) st = Some st1" and s2: "vl graph (Inr ds') st1 = Some st'"
          by (auto split: bind_splits)
        from 1(1) [OF s1] 1(1) [OF s2] same Inr Cons show ?thesis
          by (simp add: visit_loop_Cons)
      qed
    qed
  qed
qed

lemma visit_loop_nodes_cong:
  assumes "nodes graph' = nodes graph"
  shows "visit_loop graph' w st = visit_loop graph w st"
proof (cases "visit_loop graph w st")
  case None
  show ?thesis
  proof (cases "visit_loop graph' w st")
    case None
    with \<open>visit_loop graph w st = None\<close> show ?thesis by simp
  next
    case (Some y)
    from visit_loop_nodes_Some [OF this] assms have "visit_loop graph w st = Some y" by simp
    with None show ?thesis by simp
  qed
next
  case (Some y)
  from visit_loop_nodes_Some [OF this] assms show ?thesis using Some by simp
qed

lemma updateExecutionOrder_shape:
  assumes "updateExecutionOrder graph = Some graph'"
  shows "graph' = graph\<lparr>executionOrder := executionOrder graph'\<rparr>"
  using assms by (auto simp: updateExecutionOrder_def split: bind_splits)

lemma updateExecutionOrder_again:
  assumes "updateExecutionOrder graph = Some graph'"
  shows "updateExecutionOrder graph' = Some graph'"
proof -
  from assms obtain st1 st2 where
    s1: "visit_loop graph (Inl (rootId graph)) \<lparr>visited = {}, order = []\<rparr> = Some st1"
    and s2: "visit_loop graph (Inr (map fst (nodes graph))) st1 = Some st2"
    and g': "graph' = graph\<lparr>executionOrder := order st2\<rparr>"
    by (auto simp: updateExecutionOrder_def visit_def visit_each_def split: bind_splits)
  have same: "visit_loop (graph\<lparr>executionOrder := xs\<rparr>) w st = visit_loop graph w st" for xs w st
    by (rule visit_loop_nodes_cong) simp
  show ?thesis
    unfolding g' by (simp add: updateExecutionOrder_def visit_def visit_each_def same s1 s2)
qed

lemma updateExecutionOrder_idempotent:
  "Option.bind (updateExecutionOrder graph) updateExecutionOrder = updateExecutionOrder graph"
  by (cases "updateExecutionOrder graph") (simp_all add: updateExecutionOrder_again)

lemma updateExecutionOrder_complete:
  assumes "updateExecutionOrder graph = Some graph'"
  shows "distinct (executionOrder graph') \<and> set (executionOrder graph') = node_ids graph"
proof -
  from assms have "acyclic (dep_edges graph)" by (rule updateExecutionOrder_returns_acyclic)
  from updateExecutionOrder_acyclic [OF this] obtain xs where
    run: "updateExecutionOrder graph = Some (graph\<lparr>executionOrder := xs\<rparr>)"
    and xs: "distinct xs" "set xs = node_ids graph"
    by blast
  from run assms have "graph' = graph\<lparr>executionOrder := xs\<rparr>" by simp
  then have "executionOrder graph' = xs" by simp
  with xs show ?thesis by simp
qed

lemma demo_graph_acyclic: "acyclic (dep_edges demo_graph)"
  by code_simp

lemma demo_graph_run:
  "updateExecutionOrder demo_graph = Some (demo_graph\<lparr>executionOrder := [''c'', ''b'', ''a'', ''d'']\<rparr>)"
  by code_simp

lemma cyclic_graph_cyclic: "\<not> acyclic (dep_edges cyclic_graph)"
  by code_simp

lemma cyclic_graph_no_order: "updateExecutionOrder cyclic_graph = None"
proof (cases "updateExecutionOrder cyclic_graph")
  case None
  then show ?thesis .
next
  case (Some graph')
  then have "acyclic (dep_edges cyclic_graph)" by (rule updateExecutionOrder_returns_acyclic)
  with cyclic_graph_cyclic show ?thesis by simp
qed

text \<open>
  Claim C4. For every graph whose dependency relation is acyclic, recomputing the execution
  order returns, the sequence has no duplicates, and every dependency \<open>d\<close> of a node \<open>n\<close>
  that is itself a node of the graph stands strictly before \<open>n\<close> in it.
\<close>

theorem execution_order_respects_dependencies:
  assumes "acyclic (dep_edges graph)"
  shows "\<exists>graph'. updateExecutionOrder graph = Some graph' \<and> distinct (executionOrder graph')
           \<and> (\<forall>n node d. map_of (nodes graph) n = Some node \<and> d \<in> set (dependencies node)
                  \<and> d \<in> node_ids graph \<longrightarrow> precedes d n (executionOrder graph'))"
proof -
  from updateExecutionOrder_acyclic [OF assms] obtain xs where
    run: "updateExecutionOrder graph = Some (graph\<lparr>executionOrder := xs\<rparr>)"
    and xs: "distinct xs" "set xs = node_ids graph" "ordered_from graph {} xs"
    by blast
  have "precedes d n xs"
    if "map_of (nodes graph) n = Some node" "d \<in> set (dependencies node)" "d \<in> node_ids graph"
    for n node d
  proof -
    from that(1) have "n \<in> set xs" using xs(2) by (auto simp: node_ids_iff)
    moreover from that(1,2) have "(d, n) \<in> dep_edges graph" by (auto simp: dep_edges_iff)
    ultimately show ?thesis
      using ordered_from_precedes [OF xs(3), of n d] that(3) by simp
  qed
  with run xs(1) show ?thesis by auto
qed

theorem execution_order_respects_dependencies_witness:
  "acyclic (dep_edges demo_graph)
   \<and> map_of (nodes demo_graph) ''a'' = Some (demo_node ''a'' [''b'', ''c''])
   \<and> ''b'' \<in> set (dependencies (demo_node ''a'' [''b'', ''c'']))
   \<and> ''b'' \<in> node_ids demo_graph
   \<and> (\<exists>graph'. updateExecutionOrder demo_graph = Some graph'
         \<and> executionOrder graph' = [''c'', ''b'', ''a'', ''d'']
         \<and> precedes ''b'' ''a'' (executionOrder graph'))"
proof -
  have pre: "map_of (nodes demo_graph) ''a'' = Some (demo_node ''a'' [''b'', ''c''])
             \<and> ''b'' \<in> set (dependencies (demo_node ''a'' [''b'', ''c'']))
             \<and> ''b'' \<in> node_ids demo_graph"
    by (simp add: demo_graph_def demo_node_def node_ids_def)
  from execution_order_respects_dependencies [OF demo_graph_acyclic] obtain graph' where
    run: "updateExecutionOrder demo_graph = Some graph'"
    and before: "\<forall>n node d. map_of (nodes demo_graph) n = Some node \<and> d \<in> set (dependencies node)
                   \<and> d \<in> node_ids demo_graph \<longrightarrow> precedes d n (executionOrder graph')"
    by blast
  from before pre have "precedes ''b'' ''a'' (executionOrder graph')" by blast
  moreover from run have "executionOrder graph' = [''c'', ''b'', ''a'', ''d'']"
    by (auto simp: demo_graph_run)
  ultimately show ?thesis using pre run demo_graph_acyclic by blast
qed

text \<open>
  Claim C5, as amended. For every graph whose dependency relation is acyclic, recomputing
  the execution order returns a sequence, a second recomputation right after the first
  gives the same sequence, and the sequence has no duplicates and its elements are exactly
  the node ids of the graph's node map. For a graph with a dependency cycle the
  recomputation does not return and no sequence is computed.
\<close>

theorem execution_order_idempotent_complete:
  "(acyclic (dep_edges graph) \<longrightarrow>
      (\<exists>graph'. updateExecutionOrder graph = Some graph'
         \<and> updateExecutionOrder graph' = Some graph'
         \<and> distinct (executionOrder graph')
         \<and> set (executionOrder graph') = node_ids graph))
   \<and> (\<not> acyclic (dep_edges graph) \<longrightarrow> updateExecutionOrder graph = None)"
proof (intro conjI impI)
  assume "acyclic (dep_edges graph)"
  from updateExecutionOrder_acyclic [OF this] obtain graph' where
    run: "updateExecutionOrder graph = Some graph'" by blast
  from updateExecutionOrder_again [OF run] updateExecutionOrder_complete [OF run] run
  show "\<exists>graph'. updateExecutionOrder graph = Some graph'
         \<and> updateExecutionOrder graph' = Some graph'
         \<and> distinct (executionOrder graph')
         \<and> set (executionOrder graph') = node_ids graph"
    by blast
next
  assume "\<not> acyclic (dep_edges graph)"
  with updateExecutionOrder_returns_acyclic [of graph] show "updateExecutionOrder graph = None"
    by (cases "updateExecutionOrder graph") auto
qed

theorem execution_order_idempotent_complete_witness:
  "acyclic (dep_edges demo_graph)
   \<and> updateExecutionOrder demo_graph = Some (demo_graph\<lparr>executionOrder := [''c'', ''b'', ''a'', ''d'']\<rparr>)
   \<and> updateExecutionOrder (demo_graph\<lparr>executionOrder := [''c'', ''b'', ''a'', ''d'']\<rparr>)
       = Some (demo_graph\<lparr>executionOrder := [''c'', ''b'', ''a'', ''d'']\<rparr>)
   \<and> set [''c'', ''b'', ''a'', ''d''] = node_ids demo_graph"
proof -
  let ?g' = "demo_graph\<lparr>executionOrder := [''c'', ''b'', ''a'', ''d'']\<rparr>"
  from execution_order_idempotent_complete [of demo_graph] demo_graph_acyclic obtain graph' where
    "updateExecutionOrder demo_graph = Some graph'" "updateExecutionOrder graph' = Some graph'"
    "set (executionOrder graph') = node_ids demo_graph"
    by blast
  with demo_graph_run have
    "updateExecutionOrder ?g' = Some ?g' \<and> set (executionOrder ?g') = node_ids demo_graph"
    by simp
  then show ?thesis using demo_graph_run demo_graph_acyclic by simp
qed

text \<open>
  Claim C5 as stated fails for a graph with a dependency cycle: the recomputation does not
  return, so no sequence is computed, and the execution order that the graph holds omits
  the nodes \<open>b\<close> and \<open>c\<close> of its node map.
\<close>

theorem execution_order_cycle_counterexample:
  "updateExecutionOrder cyclic_graph = None
   \<and> executionOrder cyclic_graph = [''a'']
   \<and> ''b'' \<in> node_ids cyclic_graph \<and> ''b'' \<notin> set (executionOrder cyclic_graph)
   \<and> ''c'' \<in> node_ids cyclic_graph \<and> ''c'' \<notin> set (executionOrder cyclic_graph)"
  using cyclic_graph_no_order by (simp add: cyclic_graph_def node_ids_def)

text \<open>
  Claim C10. Recomputing the execution order terminates for every graph whose dependency
  relation is acyclic, and the precondition is essential: it terminates for no other graph,
  the check of the visited set does not stop the recursion on a dependency cycle.
\<close>

theorem execution_order_terminates_iff_acyclic:
  "(\<exists>graph'. updateExecutionOrder graph = Some graph') \<longleftrightarrow> acyclic (dep_edges graph)"
  using updateExecutionOrder_acyclic updateExecutionOrder_returns_acyclic by blast

theorem execution_order_terminates_iff_acyclic_witness:
  "acyclic (dep_edges demo_graph) \<and> (\<exists>graph'. updateExecutionOrder demo_graph = Some graph')
   \<and> \<not> acyclic (dep_edges cyclic_graph) \<and> updateExecutionOrder cyclic_graph = None"
proof -
  have "\<exists>graph'. updateExecutionOrder demo_graph = Some graph'"
    using execution_order_terminates_iff_acyclic [of demo_graph] demo_graph_acyclic by blast
  moreover have "updateExecutionOrder cyclic_graph = None"
    using execution_order_terminates_iff_acyclic [of cyclic_graph] cyclic_graph_cyclic by auto
  ultimately show ?thesis using demo_graph_acyclic cyclic_graph_cyclic by blast
qed


section \<open>The policy pass\<close>

lemma applyAction_preserves:
  assumes "applyAction act d params = Inr d'"
  shows "action d' = action d \<and> suggestedResponse d' = suggestedResponse d
         \<and> (requiresHumanApproval d \<longrightarrow> requiresHumanApproval d')
         \<and> (act \<noteq> ''set_confidence'' \<longrightarrow> confidence d' = confidence d)
         \<and> (act \<noteq> ''require_human_approval'' \<longrightarrow> requiresHumanApproval d' = requiresHumanApproval d)"
  using assms
  by (auto simp: applyAction_def split: if_splits option.splits)

lemma applyAction_unknown: "act \<notin> known_actions \<Longrightarrow> applyAction act d params = Inr d"
  by (simp add: applyAction_def known_actions_def)

lemma applyAction_raises_iff:
  "(\<exists>e. applyAction act d params = Inl e) \<longleftrightarrow> act = ''set_confidence'' \<and> params = None"
  by (auto simp: applyAction_def split: option.splits)


lemma apply_rules_returns:
  assumes "\<forall>r \<in> set rs. unparameterised r \<longrightarrow> (\<forall>d. \<not> evaluateCondition ev (condition r) inp d)"
  shows "\<exists>d'. apply_rules ev inp rs d = Inr d'"
  using assms
proof (induction rs arbitrary: d)
  case Nil
  then show ?case by simp
next
  case (Cons r rs)
  show ?case
  proof (cases "evaluateCondition ev (condition r) inp d")
    case True
    with Cons.prems have "\<not> unparameterised r" by auto
    then have "\<not> (\<exists>e. applyAction (rule_action r) d (parameters r) = Inl e)"
      by (simp add: applyAction_raises_iff unparameterised_def)
    then obtain d1 where "applyAction (rule_action r) d (parameters r) = Inr d1"
      by (cases "applyAction (rule_action r) d (parameters r)") auto
    with True Cons show ?thesis by simp
  next
    case False
    with Cons show ?thesis by simp
  qed
qed

lemma apply_policies_returns:
  assumes "\<forall>p \<in> set ps. \<forall>r \<in> set (rules p).
             unparameterised r \<longrightarrow> (\<forall>d. \<not> evaluateCondition ev (condition r) inp d)"
  shows "\<exists>d'. apply_policies ev inp ps d = Inr d'"
  using assms
proof (induction ps arbitrary: d)
  case Nil
  then show ?case by simp
next
  case (Cons p ps)
  then obtain d1 where "apply_rules ev inp (rules p) d = Inr d1"
    using apply_rules_returns [of "rules p" ev inp d] by auto
  with Cons show ?case by simp
qed

lemma checkPolicies_returns:
  assumes "\<not> unparameterised_rule_matches ev inp policies"
  shows "\<exists>d'. checkPolicies ev policies inp d = Inr d'"
  unfolding checkPolicies_def
  by (rule apply_policies_returns) (use assms in \<open>auto simp: unparameterised_rule_matches_def\<close>)

lemma parameterised_never_matches:
  "confidence_rules_parameterised policies \<Longrightarrow> \<not> unparameterised_rule_matches ev inp policies"
  by (auto simp: confidence_rules_parameterised_def unparameterised_rule_matches_def)

lemma checkPolicies_parameterised_returns:
  assumes "confidence_rules_parameterised policies"
  shows "\<exists>d'. checkPolicies ev policies inp d = Inr d'"
  by (rule checkPolicies_returns) (rule parameterised_never_matches [OF assms])

lemma apply_rules_preserves:
  assumes "apply_rules ev inp rs d = Inr d'"
  shows "action d' = action d \<and> suggestedResponse d' = suggestedResponse d
         \<and> (requiresHumanApproval d \<longrightarrow> requiresHumanApproval d')
         \<and> ((\<forall>r \<in> set rs. rule_action r \<noteq> ''set_confidence'') \<longrightarrow> confidence d' = confidence d)
         \<and> ((\<forall>r \<in> set rs. rule_action r \<noteq> ''require_human_approval'') \<longrightarrow>
               requiresHumanApproval d' = requiresHumanApproval d)"
  using assms
proof (induction rs arbitrary: d)
  case Nil
  then show ?case by simp
next
  case (Cons r rs)
  show ?case
  proof (cases "evaluateCondition ev (condition r) inp d")
    case True
    with Cons.prems obtain d1 where
      a: "applyAction (rule_action r) d (parameters r) = Inr d1"
      and b: "apply_rules ev inp rs d1 = Inr d'"
      by (auto split: sum.splits)
    from applyAction_preserves [OF a] Cons.IH [OF b] show ?thesis by auto
  next
    case False
    with Cons.prems have "apply_rules ev inp rs d = Inr d'" by simp
    from Cons.IH [OF this] show ?thesis by auto
  qed
qed

lemma apply_policies_preserves:
  assumes "apply_policies ev inp ps d = Inr d'"
  shows "action d' = action d \<and> suggestedResponse d' = suggestedResponse d
         \<and> (requiresHumanApproval d \<longrightarrow> requiresHumanApproval d')
         \<and> ((\<forall>p \<in> set ps. \<forall>r \<in> set (rules p). rule_action r \<noteq> ''set_confidence'') \<longrightarrow>
               confidence d' = confidence d)
         \<and> ((\<forall>p \<in> set ps. \<forall>r \<in> set (rules p). rule_action r \<noteq> ''require_human_approval'') \<longrightarrow>
               requiresHumanApproval d' = requiresHumanApproval d)"
  using assms
proof (induction ps arbitrary: d)
  case Nil
  then show ?case by simp
next
  case (Cons p ps)
  from Cons.prems obtain d1 where
    a: "apply_rules ev inp (rules p) d = Inr d1" and b: "apply_policies ev inp ps d1 = Inr d'"
    by (auto split: sum.splits)
  from apply_rules_preserves [OF a] Cons.IH [OF b] show ?case by auto
qed

lemma checkPolicies_preserves:
  assumes "checkPolicies ev policies inp d = Inr d'"
  shows "action d' = action d \<and> suggestedResponse d' = suggestedResponse d
         \<and> (requiresHumanApproval d \<longrightarrow> requiresHumanApproval d')
         \<and> (no_confidence_rules policies \<longrightarrow> confidence d' = confidence d)"
  using apply_policies_preserves [OF assms [unfolded checkPolicies_def]]
  by (auto simp: no_confidence_rules_def)

lemma checkPolicies_approval_unchanged:
  assumes "checkPolicies ev policies inp d = Inr d'" "no_approval_rules policies"
  shows "requiresHumanApproval d' = requiresHumanApproval d"
  using apply_policies_preserves [OF assms(1) [unfolded checkPolicies_def]] assms(2)
  by (auto simp: no_approval_rules_def)

lemma checkPolicies_none: "checkPolicies ev [] inp d = Inr d"
  by (simp add: checkPolicies_def)

lemma condition_throws_skipped:
  "run_condition ev (condition rule) inp d = None
     \<Longrightarrow> apply_rules ev inp (rule # rs) d = apply_rules ev inp rs d"
  by (simp add: evaluateCondition_def)

lemma unknown_action_skipped:
  "rule_action rule \<notin> known_actions \<Longrightarrow> apply_rules ev inp (rule # rs) d = apply_rules ev inp rs d"
  by (simp add: applyAction_unknown)






section \<open>Approval below the confidence threshold\<close>

lemma urgent_request_categories: "categorize urgent_request = [''urgent'', ''question'']"
  by code_simp

lemma vague_matched: "matched_categories vague_request = []"
  by code_simp

lemma vague_categories: "categorize vague_request = [''general'']"
  by (simp add: categorize_def vague_matched)

lemma hello_intent: "detectIntent ''Hello there'' = ''general_inquiry''"
  by code_simp

lemma humanReviewPolicy_no_confidence_rules: "no_confidence_rules [humanReviewPolicy default_config]"
  by (simp add: no_confidence_rules_def humanReviewPolicy_def)

lemma intent_confidence_bound:
  "intent_evaluateConfidence intent_type < 0.7 \<Longrightarrow> intent_evaluateConfidence intent_type < js_lit 0.7"
  by (simp add: intent_evaluateConfidence_def js_lit_simps split: if_splits)

lemma summarization_confidence: "summarization_evaluateConfidence None None = js_lit 0.85"
  by (simp add: summarization_evaluateConfidence_def js_divide_def)

text \<open>
  Claim C3, as amended. For \<open>TriageAgent\<close> and \<open>AutoReplyAgent\<close>, a returned decision
  whose confidence is strictly below the configured \<open>confidenceThreshold\<close> requires human
  approval, provided no rule of an enabled policy has the action \<open>set_confidence\<close>.
  \<open>IntentDetectionAgent\<close> gives this below its own fixed bound 0.7, and
  \<open>SummarizationAgent\<close> never requires approval unless a rule of an enabled policy has
  the action \<open>require_human_approval\<close>. Without \<open>set_confidence\<close> rules the confidence of
  a returned decision is a number.
\<close>

theorem approval_below_threshold:
  "(no_confidence_rules policies \<and> triage_process cfg ev policies req = Inr d \<longrightarrow>
      (\<exists>c. confidence d = Number c \<and> (c < confidenceThreshold cfg \<longrightarrow> requiresHumanApproval d)))
   \<and> (no_confidence_rules policies \<and> autoReply_process cfg ev policies intent ctx = Inr d \<longrightarrow>
        (\<exists>c. confidence d = Number c \<and> (c < confidenceThreshold cfg \<longrightarrow> requiresHumanApproval d)))
   \<and> (no_confidence_rules policies \<and> intent_process ev policies text = Inr d \<longrightarrow>
        (\<exists>c. confidence d = Number c \<and> (c < 0.7 \<longrightarrow> requiresHumanApproval d)))
   \<and> (no_approval_rules policies \<and> summarization_process ev policies text maxLength = Inr d
        \<longrightarrow> \<not> requiresHumanApproval d)"
proof (intro conjI impI; elim conjE)
  assume a: "no_confidence_rules policies" "triage_process cfg ev policies req = Inr d"
  from a(2) checkPolicies_preserves a(1)
  show "\<exists>c. confidence d = Number c \<and> (c < confidenceThreshold cfg \<longrightarrow> requiresHumanApproval d)"
    unfolding triage_process_def Let_def by fastforce
next
  assume a: "no_confidence_rules policies" "autoReply_process cfg ev policies intent ctx = Inr d"
  from a(2) checkPolicies_preserves a(1)
  show "\<exists>c. confidence d = Number c \<and> (c < confidenceThreshold cfg \<longrightarrow> requiresHumanApproval d)"
    unfolding autoReply_process_def Let_def by fastforce
next
  assume a: "no_confidence_rules policies" "intent_process ev policies text = Inr d"
  let ?c = "intent_evaluateConfidence (detectIntent text)"
  from a(2) checkPolicies_preserves a(1)
  have "confidence d = Number ?c \<and> (?c < js_lit 0.7 \<longrightarrow> requiresHumanApproval d)"
    unfolding intent_process_def Let_def by fastforce
  with intent_confidence_bound [of "detectIntent text"]
  show "\<exists>c. confidence d = Number c \<and> (c < 0.7 \<longrightarrow> requiresHumanApproval d)"
    by blast
next
  assume a: "no_approval_rules policies" "summarization_process ev policies text maxLength = Inr d"
  from a(2) checkPolicies_approval_unchanged a(1) show "\<not> requiresHumanApproval d"
    unfolding summarization_process_def Let_def by fastforce
qed

theorem approval_below_threshold_witness:
  "no_confidence_rules [humanReviewPolicy default_config] \<and> no_approval_rules []
   \<and> (\<exists>d. triage_process default_config demo_engine [humanReviewPolicy default_config] vague_request = Inr d
          \<and> confidence d = Number (js_lit 0.6)
          \<and> js_lit 0.6 < confidenceThreshold default_config \<and> requiresHumanApproval d)
   \<and> (\<exists>d. autoReply_process default_config demo_engine [humanReviewPolicy default_config]
             (JStr ''unknown_intent'') unknown_intent_context = Inr d
          \<and> confidence d = Number (js_lit 0.3)
          \<and> js_lit 0.3 < confidenceThreshold default_config \<and> requiresHumanApproval d)
   \<and> (\<exists>d. intent_process demo_engine [humanReviewPolicy default_config] ''Hello there'' = Inr d
          \<and> confidence d = Number (js_lit 0.5) \<and> js_lit 0.5 < 0.7 \<and> requiresHumanApproval d)
   \<and> (\<exists>d. summarization_process demo_engine [] ''Hello world.'' None = Inr d
          \<and> \<not> requiresHumanApproval d)"
proof -
  let ?ps = "[humanReviewPolicy default_config]"
  have nap: "no_approval_rules []" by (simp add: no_approval_rules_def)
  have below: "js_lit 0.6 < confidenceThreshold default_config"
    "js_lit 0.3 < confidenceThreshold default_config" "js_lit 0.5 < 0.7"
    by (simp_all add: default_config_def js_lit_simps)
  obtain d1 where d1: "triage_process default_config demo_engine ?ps vague_request = Inr d1"
    "confidence d1 = Number (js_lit 0.6)"
    by (simp add: triage_process_def vague_categories prioritize_def triage_values
        checkPolicies_def humanReviewPolicy_def default_config_def demo_engine_def
        evaluateCondition_def applyAction_def to_number_def js_lit_simps Let_def)
  obtain d2 where d2: "autoReply_process default_config demo_engine ?ps (JStr ''unknown_intent'')
        unknown_intent_context = Inr d2" "confidence d2 = Number (js_lit 0.3)"
    by (simp add: autoReply_process_def generateResponse_def knowledgeBase_def str_truthy_def
        checkPolicies_def humanReviewPolicy_def default_config_def demo_engine_def
        evaluateCondition_def applyAction_def to_number_def js_lit_simps Let_def)
  obtain d3 where d3: "intent_process demo_engine ?ps ''Hello there'' = Inr d3"
    "confidence d3 = Number (js_lit 0.5)"
    by (simp add: intent_process_def hello_intent intent_evaluateConfidence_def Let_def
        checkPolicies_def humanReviewPolicy_def default_config_def demo_engine_def
        evaluateCondition_def applyAction_def to_number_def js_lit_simps)
  have sm: "summarize ''Hello world.'' 200 = ''Hello world.''" by code_simp
  obtain d4 where d4: "summarization_process demo_engine [] ''Hello world.'' None = Inr d4"
    by (simp add: summarization_process_def checkPolicies_def Let_def)
  from approval_below_threshold [of ?ps default_config demo_engine vague_request d1]
    humanReviewPolicy_no_confidence_rules d1 below(1)
  have "requiresHumanApproval d1" by auto
  moreover
  from approval_below_threshold [of ?ps default_config demo_engine _ d2 "JStr ''unknown_intent''" unknown_intent_context]
    humanReviewPolicy_no_confidence_rules d2 below(2)
  have "requiresHumanApproval d2" by auto
  moreover
  from approval_below_threshold [of ?ps _ demo_engine _ d3 _ _ "''Hello there''"]
    humanReviewPolicy_no_confidence_rules d3 below(3)
  have "requiresHumanApproval d3" by auto
  moreover
  from approval_below_threshold [of "[]" _ demo_engine _ d4 _ _ "''Hello world.''" None] nap d4
  have "\<not> requiresHumanApproval d4" by blast
  ultimately show ?thesis using humanReviewPolicy_no_confidence_rules nap d1 d2 d3 d4 below by blast
qed

text \<open>
  Claim C3 as stated fails: with no policy attached and the threshold configured as 0.9,
  the decision of the summarization agent has confidence 0.85 and does not require approval.
\<close>

theorem approval_default_counterexample:
  "summarization_process demo_engine [] ''Hello world.'' None = Inr hello_summary_decision
   \<and> confidence hello_summary_decision = Number (js_lit 0.85)
   \<and> js_lit 0.85 < confidenceThreshold strict_config
   \<and> \<not> requiresHumanApproval hello_summary_decision"
proof -
  have "summarize ''Hello world.'' 200 = ''Hello world.''" by code_simp
  moreover have "js_lit 0.85 < confidenceThreshold strict_config"
    by (simp add: strict_config_def js_lit_simps)
  ultimately show ?thesis
    by (simp add: summarization_process_def checkPolicies_def hello_summary_decision_def
        summarization_confidence)
qed

text \<open>
  The restriction to policies without \<open>set_confidence\<close> rules is needed: such a rule lowers
  the confidence after the agent has computed the approval flag from the old value.
\<close>

lemma lowered_confidence_keeps_flag:
  "triage_process default_config demo_engine
     [mixed_policy\<lparr>rules := [lower_confidence_rule]\<rparr>] urgent_request
   = Inr \<lparr>action = ''triage'', confidence = Number (js_lit 0.4),
          reasoning = ''Categorized as urgent, question with high priority'',
          requiresHumanApproval = False, suggestedResponse = None,
          metadata = Some [(''categories'', JStrs [''urgent'', ''question'']),
                           (''priority'', JStr ''high'')]\<rparr>"
proof -
  have "\<not> js_lit 0.8999999999999999 < confidenceThreshold default_config"
    by (simp add: default_config_def js_lit_simps)
  then show ?thesis
    by (simp add: triage_process_def urgent_request_categories prioritize_def
        triage_values checkPolicies_def mixed_policy_def
        lower_confidence_rule_def demo_engine_def evaluateCondition_def applyAction_def)
qed


section \<open>Triage confidence\<close>

lemma triage_confidence_cases:
  "triage_evaluateConfidence categories prio =
     (if categories \<noteq> [] \<and> hd categories \<noteq> ''general'' then
        (if prio \<noteq> ''normal'' then
           (if length categories = 1 then js_lit 0.9999999999999999 else js_lit 0.8999999999999999)
         else (if length categories = 1 then js_lit 0.7999999999999999 else js_lit 0.7))
      else
        (if prio \<noteq> ''normal'' then
           (if length categories = 1 then js_lit 0.7999999999999999 else js_lit 0.7)
         else (if length categories = 1 then js_lit 0.6 else js_lit 0.5)))"
  by (simp add: triage_evaluateConfidence_def js_add_def js_lit_simps js_round_scaled [of _ 53]
      round_half_even_def Let_def)

lemma triage_confidence_sum:
  "triage_evaluateConfidence categories prio =
     min (js_lit 1.0)
       (js_add (js_add (js_add (js_lit 0.5)
                  (if categories \<noteq> [] \<and> hd categories \<noteq> ''general'' then js_lit 0.2 else 0))
          (if prio \<noteq> ''normal'' then js_lit 0.2 else 0))
          (if length categories = 1 then js_lit 0.1 else 0))"
  unfolding triage_confidence_cases
  by (simp add: js_add_def js_lit_simps js_round_scaled [of _ 53] round_half_even_def Let_def)

lemma triage_confidence_below_one:
  "triage_evaluateConfidence categories prio \<le> js_lit 0.9999999999999999"
  "triage_evaluateConfidence categories prio < 1"
  unfolding triage_confidence_cases by (simp_all add: js_lit_simps)

text \<open>
  Claim C7, as amended. The confidence of \<open>TriageAgent\<close> is formed in double arithmetic,
  in this order, as 0.5, plus 0.2 if the first category is not \<open>general\<close>, plus 0.2 if the
  priority is not \<open>normal\<close>, plus 0.1 if the categorization result has exactly one entry,
  capped at 1; the largest sum is 0.9999999999999999, so the cap is never reached. The
  fallback result \<open>[general]\<close> of a request that matched no keyword has one entry and gets
  0.6. This is the confidence of the decision that \<open>process\<close> returns when no policy is
  attached. For the subject "URGENT: Production down" and the body "Critical issue, need
  help ASAP" the categories include \<open>urgent\<close>, the priority is \<open>high\<close> and the confidence,
  0.8999999999999999, is above 0.7.
\<close>

theorem triage_confidence:
  "triage_evaluateConfidence categories prio =
     min (js_lit 1.0)
       (js_add (js_add (js_add (js_lit 0.5)
                  (if categories \<noteq> [] \<and> hd categories \<noteq> ''general'' then js_lit 0.2 else 0))
          (if prio \<noteq> ''normal'' then js_lit 0.2 else 0))
          (if length categories = 1 then js_lit 0.1 else 0))
   \<and> triage_evaluateConfidence categories prio \<le> js_lit 0.9999999999999999
   \<and> js_lit 0.9999999999999999 < 1
   \<and> (matched_categories inp = [] \<longrightarrow>
        categorize inp = [''general'']
        \<and> triage_evaluateConfidence (categorize inp) (prioritize (categorize inp)) = js_lit 0.6)
   \<and> (\<exists>d. triage_process cfg ev [] inp = Inr d
          \<and> confidence d
              = Number (triage_evaluateConfidence (categorize inp) (prioritize (categorize inp))))
   \<and> ''urgent'' \<in> set (categorize urgent_request)
   \<and> prioritize (categorize urgent_request) = ''high''
   \<and> triage_evaluateConfidence (categorize urgent_request) (prioritize (categorize urgent_request))
       = js_lit 0.8999999999999999
   \<and> js_lit 0.8999999999999999 > 0.7
   \<and> (\<exists>d. triage_process cfg ev [] urgent_request = Inr d
          \<and> confidence d = Number (js_lit 0.8999999999999999)
          \<and> metadata d = Some [(''categories'', JStrs [''urgent'', ''question'']),
                                 (''priority'', JStr ''high'')])"
proof (intro conjI)
  show "triage_evaluateConfidence categories prio =
     min (js_lit 1.0)
       (js_add (js_add (js_add (js_lit 0.5)
                  (if categories \<noteq> [] \<and> hd categories \<noteq> ''general'' then js_lit 0.2 else 0))
          (if prio \<noteq> ''normal'' then js_lit 0.2 else 0))
          (if length categories = 1 then js_lit 0.1 else 0))"
    by (rule triage_confidence_sum)
  show "triage_evaluateConfidence categories prio \<le> js_lit 0.9999999999999999"
    by (rule triage_confidence_below_one)
  show "js_lit 0.9999999999999999 < 1" "js_lit 0.8999999999999999 > 0.7"
    by (simp_all add: js_lit_simps)
  show "matched_categories inp = [] \<longrightarrow>
        categorize inp = [''general'']
        \<and> triage_evaluateConfidence (categorize inp) (prioritize (categorize inp)) = js_lit 0.6"
  proof
    assume "matched_categories inp = []"
    then have "categorize inp = [''general'']" by (simp add: categorize_def)
    moreover have "prioritize [''general''] = ''normal''" by (simp add: prioritize_def)
    ultimately show "categorize inp = [''general'']
      \<and> triage_evaluateConfidence (categorize inp) (prioritize (categorize inp)) = js_lit 0.6"
      using triage_values(1) by simp
  qed
  show "\<exists>d. triage_process cfg ev [] inp = Inr d
          \<and> confidence d
              = Number (triage_evaluateConfidence (categorize inp) (prioritize (categorize inp)))"
    by (simp add: triage_process_def checkPolicies_none Let_def)
  have p: "prioritize [''urgent'', ''question''] = ''high''"
    by (simp add: prioritize_def)
  show "''urgent'' \<in> set (categorize urgent_request)"
    by (simp add: urgent_request_categories)
  show "prioritize (categorize urgent_request) = ''high''"
    by (simp add: urgent_request_categories p)
  show "triage_evaluateConfidence (categorize urgent_request) (prioritize (categorize urgent_request))
       = js_lit 0.8999999999999999"
    unfolding urgent_request_categories p by (rule triage_values)
  then show "\<exists>d. triage_process cfg ev [] urgent_request = Inr d
          \<and> confidence d = Number (js_lit 0.8999999999999999)
          \<and> metadata d = Some [(''categories'', JStrs [''urgent'', ''question'']),
                                 (''priority'', JStr ''high'')]"
    unfolding triage_process_def checkPolicies_none Let_def urgent_request_categories p
    by simp
qed

theorem triage_confidence_witness:
  "matched_categories vague_request = []
   \<and> categorize vague_request = [''general'']
   \<and> triage_evaluateConfidence (categorize vague_request) (prioritize (categorize vague_request))
       = js_lit 0.6"
  using triage_confidence [of _ _ vague_request] vague_matched by blast

text \<open>
  Claim C7 as stated fails: a request that matches no keyword has no matched category, so
  the worded sum is 0.5, but its categorization result \<open>[general]\<close> has one entry and the
  confidence of its decision is 0.6.
\<close>

theorem triage_confidence_fallback_counterexample:
  "matched_categories vague_request = []
   \<and> worded_triage_confidence vague_request = 0.5
   \<and> (\<exists>d. triage_process default_config demo_engine [] vague_request = Inr d
          \<and> confidence d = Number (js_lit 0.6))
   \<and> js_lit 0.6 > 0.5"
proof -
  have "js_lit 0.6 > 0.5" by (simp add: js_lit_simps)
  then show ?thesis
    by (simp add: worded_triage_confidence_def vague_matched vague_categories prioritize_def
        triage_process_def checkPolicies_none triage_values Let_def)
qed


section \<open>The final action of the orchestrator\<close>











text \<open>
  \<open>processRequest\<close> returns whenever every \<open>set_confidence\<close> rule of an enabled policy has
  parameters, as with the policies of the orchestrator's own agents.
\<close>

lemma agents_return:
  assumes "confidence_rules_parameterised ps"
  shows "\<exists>d. triage_process cfg ev ps req = Inr d"
    and "\<exists>d. intent_process ev ps text = Inr d"
    and "\<exists>d. summarization_process ev ps text maxLength = Inr d"
    and "\<exists>d. autoReply_process cfg ev ps intent ctx = Inr d"
  unfolding triage_process_def intent_process_def summarization_process_def
    autoReply_process_def Let_def
  by (rule checkPolicies_parameterised_returns [OF assms])+

lemma processRequest_returns:
  assumes "confidence_rules_parameterised (triagePolicies orch)"
    and "confidence_rules_parameterised (intentPolicies orch)"
    and "confidence_rules_parameterised (summarizationPolicies orch)"
    and "confidence_rules_parameterised (autoReplyPolicies orch)"
  shows "\<exists>r. processRequest cfg ev orch inp = Inr r"
proof -
  from agents_return(1) [OF assms(1)] obtain t where
    t: "triage_process cfg ev (triagePolicies orch) inp = Inr t" by blast
  from agents_return(2) [OF assms(2)] obtain i where
    i: "intent_process ev (intentPolicies orch) (subject inp @ '' '' @ body inp) = Inr i" by blast
  from agents_return(3) [OF assms(3)] obtain s where
    s: "summarization_process ev (summarizationPolicies orch) (body inp) None = Inr s" by blast
  show ?thesis
  proof (cases "\<exists>ty. metadata_type i = Some ty \<and> truthy ty \<and> autoReplyEnabled cfg")
    case True
    then obtain ty where ty: "metadata_type i = Some ty" "truthy ty" "autoReplyEnabled cfg" by blast
    from agents_return(4) [OF assms(4)] obtain rp where
      "autoReply_process cfg ev (autoReplyPolicies orch) ty
         \<lparr>request = inp, triage = metadata t\<rparr> = Inr rp" by blast
    with t i s ty show ?thesis by (simp add: processRequest_def)
  next
    case False
    with t i s show ?thesis by (auto simp: processRequest_def split: option.splits)
  qed
qed

lemma processRequest_default_returns:
  "\<exists>r. processRequest cfg ev (initializeAgents cfg) inp = Inr r"
proof -
  have "confidence_rules_parameterised [humanReviewPolicy cfg]"
    by (simp add: confidence_rules_parameterised_def unparameterised_def humanReviewPolicy_def)
  then show ?thesis
    by (intro processRequest_returns) (simp_all add: initializeAgents_def addPolicy_def)
qed






lemma how_to_request_fields:
  "subject how_to_request = ''How to reset''" "body how_to_request = ''What is the way? Thanks.''"
  by (simp_all add: how_to_request_def)

lemma how_to_request_categories: "categorize how_to_request = [''question'']"
  by code_simp

lemma how_to_request_intent:
  "detectIntent ''How to reset What is the way? Thanks.'' = ''information_request''"
  by code_simp

lemma how_to_request_summary:
  "summarize ''What is the way? Thanks.'' 200 = ''Thanks. What is the way?''"
  by code_simp


text \<open>
  A request whose only category is \<open>question\<close>: the confidence of its triage decision,
  0.7999999999999999, is below the threshold 0.8, so the decision requires approval and the
  request is escalated.
\<close>

lemma how_to_run:
  "\<exists>r. processRequest default_config demo_engine (initializeAgents default_config) how_to_request = Inr r
       \<and> finalAction r = ''escalate'' \<and> requiresApproval r
       \<and> map confidence (decisions r)
           = map Number [js_lit 0.7999999999999999, js_lit 0.85, js_lit 0.85, js_lit 0.9]"
  by (simp add: processRequest_def triage_process_def intent_process_def summarization_process_def
      autoReply_process_def how_to_request_fields how_to_request_categories
      how_to_request_intent how_to_request_summary prioritize_def triage_values
      intent_evaluateConfidence_def summarization_confidence generateResponse_def
      knowledgeBase_def str_truthy_def metadata_type_def initializeAgents_def addPolicy_def
      humanReviewPolicy_def default_config_def checkPolicies_def demo_engine_def
      evaluateCondition_def applyAction_def to_number_def demo_string_to_number_def
      determineFinalAction_def math_max_def js_lit_simps Let_def)



section \<open>Summaries\<close>

lemma summarize_unfold:
  "summarize text maxLength =
     (if int (length (joined_sentences text)) > maxLength
      then take (nat (maxLength - 3)) (joined_sentences text) @ ''...''
      else joined_sentences text)"
  by (simp add: summarize_def joined_sentences_def Let_def)

lemma hello_joined: "joined_sentences ''Hello world.'' = ''Hello world.''"
  by code_simp

lemma summarize_within_maxLength:
  "3 \<le> maxLength \<Longrightarrow> int (length (summarize text maxLength)) \<le> maxLength"
  by (auto simp: summarize_unfold)

lemma summarize_truncated_ellipsis:
  "int (length (joined_sentences text)) > maxLength \<Longrightarrow> suffix ''...'' (summarize text maxLength)"
  by (simp add: summarize_unfold suffix_def)

text \<open>
  Claim C6 at \<open>maxLength = 2\<close>: the joined sentences of "Hello world." are longer than 2,
  the summary is the ellipsis alone, and its length 3 exceeds \<open>maxLength\<close>.
\<close>

theorem summarize_exceeds_small_maxLength:
  "int (length (joined_sentences ''Hello world.'')) > 2
   \<and> summarize ''Hello world.'' 2 = ''...''
   \<and> int (length (summarize ''Hello world.'' 2)) > 2
   \<and> summarization_process ev [] ''Hello world.'' (Some 2)
       = Inr \<lparr>action = ''summarize'', confidence = Number (js_lit 0.85),
              reasoning = ''Generated summary of input text'', requiresHumanApproval = False,
              suggestedResponse = Some ''...'',
              metadata = Some [(''originalLength'', JNum 12), (''summaryLength'', JNum 3)]\<rparr>"
proof -
  have s: "summarize ''Hello world.'' 2 = ''...''"
    by (simp add: summarize_unfold hello_joined)
  show ?thesis
    by (simp add: s hello_joined summarization_process_def checkPolicies_def
        summarization_confidence)
qed


section \<open>Graph execution\<close>

lemma execute_node_handler_failure:
  assumes "map_of (fst ws) nodeId = Some node"
    and "handler (node\<lparr>status := Processing\<rparr>) ctx (snd ws) = Inl e"
  shows "execute_node handler fp orch ctx ws nodeId
           = (AList.update nodeId (node\<lparr>status := Failed\<rparr>) (fst ws), snd ws)"
  using assms by (simp add: execute_node_def)

lemma execute_node_fingerprint_failure:
  assumes "map_of (fst ws) nodeId = Some node"
    and "handler (node\<lparr>status := Processing\<rparr>) ctx (snd ws) = Inr res"
    and "quantumResistant (swarmConfig orch)" "qdagInstance orch"
    and "fp res = Inl e"
  shows "execute_node handler fp orch ctx ws nodeId
           = (AList.update nodeId (node\<lparr>result := Some res, status := Failed\<rparr>) (fst ws),
              snd ws @ [res])"
  using assms by (simp add: execute_node_def)

lemma execute_node_effect:
  assumes "map_of (fst (execute_node handler fp orch ctx ws n)) k = Some node'"
  shows "(k = n \<longrightarrow> status node' = Completed \<or> status node' = Failed)
         \<and> (k \<noteq> n \<longrightarrow> map_of (fst ws) k = Some node')"
proof (cases "map_of (fst ws) n")
  case None
  with assms show ?thesis by (auto simp: execute_node_def)
next
  case (Some node0)
  with assms show ?thesis
    by (auto simp: execute_node_def Let_def update_conv' split: sum.splits if_splits)
qed

lemma execute_node_keys:
  "map fst (fst (execute_node handler fp orch ctx ws n)) = map fst (fst ws)"
proof (cases "map_of (fst ws) n")
  case None
  then show ?thesis by (simp add: execute_node_def)
next
  case (Some node0)
  then have "n \<in> fst ` set (fst ws)" by (auto dest: map_of_SomeD intro: rev_image_eqI)
  with Some show ?thesis
    by (auto simp: execute_node_def Let_def update_keys split: sum.splits)
qed

lemma walk_effect:
  assumes "\<And>k node. k \<in> P \<Longrightarrow> map_of (fst ws) k = Some node \<Longrightarrow>
             status node = Completed \<or> status node = Failed"
    and "k \<in> P \<union> set ids"
    and "map_of (fst (foldl (execute_node handler fp orch ctx) ws ids)) k = Some node'"
  shows "status node' = Completed \<or> status node' = Failed"
  using assms
proof (induction ids arbitrary: ws P)
  case Nil
  then show ?case by auto
next
  case (Cons n ids)
  let ?ws = "execute_node handler fp orch ctx ws n"
  have step: "status node = Completed \<or> status node = Failed"
    if "k \<in> insert n P" "map_of (fst ?ws) k = Some node" for k node
    using execute_node_effect [OF that(2)] that(1) Cons.prems(1) by blast
  from Cons.prems(2) have "k \<in> insert n P \<union> set ids" by auto
  from Cons.IH [of "insert n P" ?ws, OF step this] Cons.prems(3) show ?case by simp
qed

lemma walk_keys:
  "map fst (fst (foldl (execute_node handler fp orch ctx) ws ids)) = map fst (fst ws)"
  by (induction ids arbitrary: ws) (simp_all add: execute_node_keys)

lemma executeGraphWith_returns:
  assumes "map_of (graphs orch) graphId = Some graph"
  shows "\<exists>orch' graph' ds. executeGraphWith handler fp orch graphId ctx = Inr (orch', ds)
           \<and> map_of (graphs orch') graphId = Some graph'
           \<and> map fst (nodes graph') = map fst (nodes graph)
           \<and> (\<forall>n \<in> set (executionOrder graph). \<forall>node'. map_of (nodes graph') n = Some node' \<longrightarrow>
                  status node' = Completed \<or> status node' = Failed)"
proof -
  let ?ws = "foldl (execute_node handler fp orch ctx) (nodes graph, []) (executionOrder graph)"
  let ?graph' = "graph\<lparr>nodes := fst ?ws\<rparr>"
  let ?orch' = "orch\<lparr>graphs := AList.update graphId ?graph' (graphs orch)\<rparr>"
  have "executeGraphWith handler fp orch graphId ctx = Inr (?orch', snd ?ws)"
    using assms by (simp add: executeGraphWith_def Let_def)
  moreover have "map_of (graphs ?orch') graphId = Some ?graph'"
    by (simp add: update_conv')
  moreover have "map fst (nodes ?graph') = map fst (nodes graph)"
    using walk_keys [of handler fp orch ctx "(nodes graph, [])"] by simp
  moreover have "status node' = Completed \<or> status node' = Failed"
    if "n \<in> set (executionOrder graph)" "map_of (nodes ?graph') n = Some node'" for n node'
    using walk_effect [of "{}" "(nodes graph, [])" n "executionOrder graph" handler fp orch ctx node']
      that by simp
  ultimately show ?thesis by blast
qed

lemma no_dependencies_acyclic: "no_dependencies graph \<Longrightarrow> acyclic (dep_edges graph)"
proof -
  assume "no_dependencies graph"
  then have "dep_edges graph = {}"
    by (auto simp: no_dependencies_def dep_edges_iff)
  then show ?thesis by (simp add: acyclic_def)
qed

lemma createGraph_no_dependencies:
  assumes "createGraph orch gid q u t = (orch1, graph)"
  shows "map_of (graphs orch1) gid = Some graph \<and> no_dependencies graph \<and> rootId graph = u"
  using assms by (auto simp: createGraph_def Let_def update_conv' no_dependencies_def split: if_splits)

lemma attach_child_unchanged:
  assumes "\<not> (\<exists>p parentNode. par = Some p \<and> p \<noteq> [] \<and> map_of nodes1 p = Some parentNode)"
  shows "attach_child par u nodes1 = nodes1"
  using assms by (auto simp: attach_child_def split: option.splits)

lemma attach_child_update:
  assumes "par = Some p" "p \<noteq> []" "map_of nodes1 p = Some parentNode"
  shows "attach_child par u nodes1
           = AList.update p (parentNode\<lparr>children := children parentNode @ [u]\<rparr>) nodes1"
  using assms by (simp add: attach_child_def)

lemma map_upd_lookup:
  assumes "(m(p \<mapsto> v)) k = Some w"
  shows "w = v \<or> m k = Some w"
  using assms by (auto split: if_splits)

lemma attach_child_dependencies:
  assumes "\<And>k nd. map_of nodes1 k = Some nd \<Longrightarrow> dependencies nd = []"
    and look: "map_of (attach_child par u nodes1) k = Some nd'"
  shows "dependencies nd' = []"
proof (cases "\<exists>p parentNode. par = Some p \<and> p \<noteq> [] \<and> map_of nodes1 p = Some parentNode")
  case False
  then have e: "attach_child par u nodes1 = nodes1"
    by (rule attach_child_unchanged)
  from look have "map_of nodes1 k = Some nd'" unfolding e .
  then show ?thesis by (rule assms(1))
next
  case True
  then obtain p parentNode where p: "par = Some p" "p \<noteq> []" "map_of nodes1 p = Some parentNode"
    by blast
  then have e: "attach_child par u nodes1
               = AList.update p (parentNode\<lparr>children := children parentNode @ [u]\<rparr>) nodes1"
    by (rule attach_child_update)
  from look have "((map_of nodes1)(p \<mapsto> parentNode\<lparr>children := children parentNode @ [u]\<rparr>)) k = Some nd'"
    unfolding e update_conv' .
  then have "nd' = parentNode\<lparr>children := children parentNode @ [u]\<rparr> \<or> map_of nodes1 k = Some nd'"
    by (rule map_upd_lookup)
  then show ?thesis
  proof
    assume "nd' = parentNode\<lparr>children := children parentNode @ [u]\<rparr>"
    with assms(1) [OF p(3)] show ?thesis by simp
  next
    assume "map_of nodes1 k = Some nd'"
    then show ?thesis by (rule assms(1))
  qed
qed

lemma addNode_no_dependencies:
  assumes g: "map_of (graphs orch) gid = Some graph" and nd: "no_dependencies graph"
    and node: "dependencies node = []"
  shows "\<exists>orch' n graph'. addNode orch gid node u t = Some (Inr (orch', n))
           \<and> map_of (graphs orch') gid = Some graph' \<and> no_dependencies graph'"
proof -
  define newNode where "newNode = node\<lparr>node_id := u, timestamp := t\<rparr>"
  define nodes1 where "nodes1 = AList.update u newNode (nodes graph)"
  define nodes2 where "nodes2 = attach_child (parent node) u nodes1"
  define edges1 where "edges1 = (if map_of (edges graph) u = None
                         then AList.update u [] (edges graph) else edges graph)"
  define graph2 where "graph2 = graph\<lparr>nodes := nodes2, edges := edges1\<rparr>"
  have n1: "dependencies nd' = []" if "map_of nodes1 k = Some nd'" for k nd'
  proof -
    from that have "((map_of (nodes graph))(u \<mapsto> newNode)) k = Some nd'"
      unfolding nodes1_def update_conv' .
    then have "nd' = newNode \<or> map_of (nodes graph) k = Some nd'"
      by (rule map_upd_lookup)
    then show ?thesis
    proof
      assume "nd' = newNode"
      with node show ?thesis by (simp add: newNode_def)
    next
      assume "map_of (nodes graph) k = Some nd'"
      with nd show ?thesis unfolding no_dependencies_def by blast
    qed
  qed
  have n2: "dependencies nd' = []" if "map_of nodes2 k = Some nd'" for k nd'
    using that unfolding nodes2_def by (rule attach_child_dependencies [rotated]) (rule n1)
  have "nodes graph2 = nodes2" by (simp add: graph2_def)
  with n2 have nd2: "no_dependencies graph2"
    unfolding no_dependencies_def by metis
  from updateExecutionOrder_acyclic [OF no_dependencies_acyclic [OF nd2]] obtain xs where
    run: "updateExecutionOrder graph2 = Some (graph2\<lparr>executionOrder := xs\<rparr>)"
    by blast
  define graph' where "graph' = graph2\<lparr>executionOrder := xs\<rparr>"
  have "nodes graph' = nodes graph2" by (simp add: graph'_def)
  with nd2 have nd': "no_dependencies graph'" by (simp add: no_dependencies_def)
  define orch' where "orch' = orch\<lparr>graphs := AList.update gid graph' (graphs orch)\<rparr>"
  have run': "updateExecutionOrder graph2 = Some graph'" using run by (simp add: graph'_def)
  have "\<exists>n. addNode orch gid node u t = Some (Inr (orch', n))"
    unfolding addNode_def Let_def attach_child_def [symmetric]
    unfolding g option.case newNode_def [symmetric] nodes1_def [symmetric] nodes2_def [symmetric]
      edges1_def [symmetric] graph2_def [symmetric] run' orch'_def [symmetric]
    by (cases "map_of (nodes graph') u") simp_all
  moreover have "map_of (graphs orch') gid = Some graph'" by (simp add: orch'_def update_conv')
  ultimately show ?thesis using nd' by blast
qed

lemma add_questions_returns:
  assumes "map_of (graphs orch) gid = Some graph" "no_dependencies graph"
  shows "\<exists>orch' graph'. add_questions uuid clock gid rootNodeId k qs orch = Some (Inr orch')
           \<and> map_of (graphs orch') gid = Some graph'"
  using assms
proof (induction qs arbitrary: orch graph k)
  case Nil
  then show ?case by simp
next
  case (Cons q qs)
  have "dependencies (sub_question_node rootNodeId q) = []" by (simp add: sub_question_node_def)
  from addNode_no_dependencies [OF Cons.prems this, of "uuid k" "clock k"] obtain orch1 n graph1 where
    a: "addNode orch gid (sub_question_node rootNodeId q) (uuid k) (clock k) = Some (Inr (orch1, n))"
    and g1: "map_of (graphs orch1) gid = Some graph1" "no_dependencies graph1"
    by blast
  from Cons.IH [OF g1] a show ?case by simp
qed

lemma swarm_processRequestWith_returns:
  "\<exists>orch' res. swarm_processRequestWith handler fp uuid clock orch req = Some (Inr (orch', res))
      \<and> sr_consensus res = calculateConsensus (sr_decisions res)"
proof -
  define q where "q = ''How should we handle support request: '' @ subject req @ ''?''"
  obtain orch1 graph where
    c: "createGraph orch (request_id req) q (uuid 0) (clock 0) = (orch1, graph)"
    by (cases "createGraph orch (request_id req) q (uuid 0) (clock 0)")
  from createGraph_no_dependencies [OF c] have
    g: "map_of (graphs orch1) (request_id req) = Some graph" "no_dependencies graph"
    by simp_all
  from add_questions_returns [OF g] obtain orch2 graph2 where
    a: "add_questions uuid clock (request_id req) (rootId graph) 1 (decomposeQuestion req) orch1
        = Some (Inr orch2)"
    and g2: "map_of (graphs orch2) (request_id req) = Some graph2"
    by blast
  from executeGraphWith_returns [OF g2] obtain orch3 ds where
    e: "executeGraphWith handler fp orch2 (request_id req) req = Inr (orch3, ds)"
    by blast
  from a have a': "add_questions uuid clock (request_id req) (rootId graph) (Suc 0)
                     (decomposeQuestion req) orch1 = Some (Inr orch2)"
    by simp
  show ?thesis
    unfolding swarm_processRequestWith_def q_def [symmetric]
    by (simp add: c a' e Let_def)
qed

lemma execute_node_absent:
  "map_of (fst ws) nodeId = None \<Longrightarrow> execute_node handler fp orch ctx ws nodeId = ws"
  by (simp add: execute_node_def)

lemma execute_node_success:
  assumes "map_of (fst ws) nodeId = Some node"
    and "handler (node\<lparr>status := Processing\<rparr>) ctx (snd ws) = Inr res"
    and "quantumResistant (swarmConfig orch) \<and> qdagInstance orch \<longrightarrow> (\<exists>f. fp res = Inr f)"
  shows "\<exists>node'. execute_node handler fp orch ctx ws nodeId
                   = (AList.update nodeId node' (fst ws), snd ws @ [res])
           \<and> status node' = Completed \<and> result node' = Some res"
  using assms by (auto simp: execute_node_def Let_def)

lemma execute_node_decisions:
  "\<exists>new. snd (execute_node handler fp orch ctx ws n) = snd ws @ new"
  by (auto simp: execute_node_def Let_def split: option.splits sum.splits)

lemma walk_decisions:
  "\<exists>new. snd (foldl (execute_node handler fp orch ctx) ws ids) = snd ws @ new"
proof (induction ids arbitrary: ws)
  case Nil
  then show ?case by simp
next
  case (Cons n ids)
  from execute_node_decisions [of handler fp orch ctx ws n] obtain new1 where
    a: "snd (execute_node handler fp orch ctx ws n) = snd ws @ new1" by blast
  from Cons.IH [of "execute_node handler fp orch ctx ws n"] obtain new2 where
    "snd (foldl (execute_node handler fp orch ctx) (execute_node handler fp orch ctx ws n) ids)
       = snd (execute_node handler fp orch ctx ws n) @ new2" by blast
  with a show ?case by simp
qed

lemma executeGraphWith_split:
  assumes "map_of (graphs orch) graphId = Some graph"
    and "executionOrder graph = before @ nodeId # after"
  shows "executeGraphWith handler fp orch graphId ctx
           = Inr (orch\<lparr>graphs := AList.update graphId
                    (graph\<lparr>nodes := fst (foldl (execute_node handler fp orch ctx)
                       (execute_node handler fp orch ctx
                          (foldl (execute_node handler fp orch ctx) (nodes graph, []) before) nodeId)
                       after)\<rparr>) (graphs orch)\<rparr>,
                  snd (foldl (execute_node handler fp orch ctx)
                       (execute_node handler fp orch ctx
                          (foldl (execute_node handler fp orch ctx) (nodes graph, []) before) nodeId)
                       after))"
  using assms by (simp add: executeGraphWith_def Let_def)

lemma executeGraphWith_appends:
  assumes "map_of (graphs orch) graphId = Some graph"
    and "executionOrder graph = before @ nodeId # after"
    and "map_of (fst (foldl (execute_node handler fp orch ctx) (nodes graph, []) before)) nodeId
           = Some node"
    and "handler (node\<lparr>status := Processing\<rparr>) ctx
           (snd (foldl (execute_node handler fp orch ctx) (nodes graph, []) before)) = Inr res"
    and "quantumResistant (swarmConfig orch) \<and> qdagInstance orch \<longrightarrow> (\<exists>f. fp res = Inr f)"
  shows "\<exists>orch' new. executeGraphWith handler fp orch graphId ctx
           = Inr (orch', snd (foldl (execute_node handler fp orch ctx) (nodes graph, []) before)
                          @ [res] @ new)"
proof -
  let ?ws = "foldl (execute_node handler fp orch ctx) (nodes graph, []) before"
  let ?ws1 = "execute_node handler fp orch ctx ?ws nodeId"
  let ?ws2 = "foldl (execute_node handler fp orch ctx) ?ws1 after"
  from execute_node_success [of ?ws nodeId node handler ctx res orch fp] assms(3,4,5)
  have "snd ?ws1 = snd ?ws @ [res]" by auto
  moreover from walk_decisions [of handler fp orch ctx ?ws1 after] obtain new where
    "snd ?ws2 = snd ?ws1 @ new" by blast
  ultimately have "snd ?ws2 = snd ?ws @ [res] @ new" by simp
  with executeGraphWith_split [OF assms(1,2), of handler fp ctx] show ?thesis by metis
qed

text \<open>
  Claim C9, as amended. A failure while a node is processed is local to the node. When the
  handler of the node fails, the status of the node becomes \<open>failed\<close> and nothing is
  appended to the decisions list; when the fingerprint call fails, the status of the node
  becomes \<open>failed\<close> as well. A node whose handler and fingerprint call succeed becomes
  \<open>completed\<close>, its result is stored on it and appended to the decisions collected so far.
  The walk goes on after every node, whatever happened to it: the nodes that follow it in
  the execution order are processed in turn from the state that it leaves behind, and
  their results come after the decisions collected up to it; so the result of a node that
  is processed successfully, whatever happened to the nodes before it, is in the returned
  list right after the decisions collected before it. \<open>executeGraph\<close> returns for
  every graph that exists, keeps the nodes of the graph, and leaves every node of the
  execution order either \<open>completed\<close> or \<open>failed\<close>; and \<open>processRequest\<close> returns its
  result whatever the handlers and the fingerprint call do.
\<close>

theorem node_failure_is_local:
  "(map_of (fst ws) nodeId = Some node \<and> handler (node\<lparr>status := Processing\<rparr>) ctx (snd ws) = Inl e
      \<longrightarrow> execute_node handler fp orch ctx ws nodeId
            = (AList.update nodeId (node\<lparr>status := Failed\<rparr>) (fst ws), snd ws))
   \<and> (map_of (fst ws) nodeId = Some node
        \<and> handler (node\<lparr>status := Processing\<rparr>) ctx (snd ws) = Inr res
        \<and> quantumResistant (swarmConfig orch) \<and> qdagInstance orch \<and> fp res = Inl e
      \<longrightarrow> (\<exists>node'. map_of (fst (execute_node handler fp orch ctx ws nodeId)) nodeId = Some node'
             \<and> status node' = Failed))
   \<and> (map_of (fst ws) nodeId = Some node
        \<and> handler (node\<lparr>status := Processing\<rparr>) ctx (snd ws) = Inr res
        \<and> (quantumResistant (swarmConfig orch) \<and> qdagInstance orch \<longrightarrow> (\<exists>f. fp res = Inr f))
      \<longrightarrow> (\<exists>node'. execute_node handler fp orch ctx ws nodeId
                     = (AList.update nodeId node' (fst ws), snd ws @ [res])
             \<and> status node' = Completed \<and> result node' = Some res))
   \<and> (map_of (graphs orch) graphId = Some graph \<and> executionOrder graph = before @ nodeId # after
      \<longrightarrow> (let ws1 = execute_node handler fp orch ctx
                        (foldl (execute_node handler fp orch ctx) (nodes graph, []) before) nodeId;
               ws2 = foldl (execute_node handler fp orch ctx) ws1 after
           in executeGraphWith handler fp orch graphId ctx
                = Inr (orch\<lparr>graphs := AList.update graphId (graph\<lparr>nodes := fst ws2\<rparr>) (graphs orch)\<rparr>,
                       snd ws2)
              \<and> (\<exists>new. snd ws2 = snd ws1 @ new)))
   \<and> (map_of (graphs orch) graphId = Some graph \<and> executionOrder graph = before @ nodeId # after
        \<and> map_of (fst (foldl (execute_node handler fp orch ctx) (nodes graph, []) before)) nodeId
              = Some node
        \<and> handler (node\<lparr>status := Processing\<rparr>) ctx
              (snd (foldl (execute_node handler fp orch ctx) (nodes graph, []) before)) = Inr res
        \<and> (quantumResistant (swarmConfig orch) \<and> qdagInstance orch \<longrightarrow> (\<exists>f. fp res = Inr f))
      \<longrightarrow> (\<exists>orch' new. executeGraphWith handler fp orch graphId ctx
             = Inr (orch', snd (foldl (execute_node handler fp orch ctx) (nodes graph, []) before)
                            @ [res] @ new)))
   \<and> (map_of (graphs orch) graphId = Some graph
      \<longrightarrow> (\<exists>orch' graph' ds. executeGraphWith handler fp orch graphId ctx = Inr (orch', ds)
             \<and> map_of (graphs orch') graphId = Some graph'
             \<and> map fst (nodes graph') = map fst (nodes graph)
             \<and> (\<forall>n \<in> set (executionOrder graph). \<forall>node'. map_of (nodes graph') n = Some node' \<longrightarrow>
                    status node' = Completed \<or> status node' = Failed)))
   \<and> (\<exists>orch' res. swarm_processRequestWith handler fp uuid clock orch req = Some (Inr (orch', res)))"
proof (intro conjI impI)
  assume "map_of (fst ws) nodeId = Some node \<and> handler (node\<lparr>status := Processing\<rparr>) ctx (snd ws) = Inl e"
  then show "execute_node handler fp orch ctx ws nodeId
               = (AList.update nodeId (node\<lparr>status := Failed\<rparr>) (fst ws), snd ws)"
    by (simp add: execute_node_handler_failure)
next
  assume "map_of (fst ws) nodeId = Some node
          \<and> handler (node\<lparr>status := Processing\<rparr>) ctx (snd ws) = Inr res
          \<and> quantumResistant (swarmConfig orch) \<and> qdagInstance orch \<and> fp res = Inl e"
  then have "execute_node handler fp orch ctx ws nodeId
               = (AList.update nodeId (node\<lparr>result := Some res, status := Failed\<rparr>) (fst ws),
                  snd ws @ [res])"
    by (simp add: execute_node_fingerprint_failure)
  then show "\<exists>node'. map_of (fst (execute_node handler fp orch ctx ws nodeId)) nodeId = Some node'
               \<and> status node' = Failed"
    by (simp add: update_conv')
next
  assume "map_of (fst ws) nodeId = Some node
        \<and> handler (node\<lparr>status := Processing\<rparr>) ctx (snd ws) = Inr res
        \<and> (quantumResistant (swarmConfig orch) \<and> qdagInstance orch \<longrightarrow> (\<exists>f. fp res = Inr f))"
  then have "map_of (fst ws) nodeId = Some node"
    and "handler (node\<lparr>status := Processing\<rparr>) ctx (snd ws) = Inr res"
    and "quantumResistant (swarmConfig orch) \<and> qdagInstance orch \<longrightarrow> (\<exists>f. fp res = Inr f)"
    by blast+
  then show "\<exists>node'. execute_node handler fp orch ctx ws nodeId
                     = (AList.update nodeId node' (fst ws), snd ws @ [res])
             \<and> status node' = Completed \<and> result node' = Some res"
    by (rule execute_node_success)
next
  assume a: "map_of (graphs orch) graphId = Some graph \<and> executionOrder graph = before @ nodeId # after"
  let ?ws1 = "execute_node handler fp orch ctx
                (foldl (execute_node handler fp orch ctx) (nodes graph, []) before) nodeId"
  let ?ws2 = "foldl (execute_node handler fp orch ctx) ?ws1 after"
  from a have "executeGraphWith handler fp orch graphId ctx
                = Inr (orch\<lparr>graphs := AList.update graphId (graph\<lparr>nodes := fst ?ws2\<rparr>) (graphs orch)\<rparr>,
                       snd ?ws2)"
    by (intro executeGraphWith_split) simp_all
  moreover have "\<exists>new. snd ?ws2 = snd ?ws1 @ new" by (rule walk_decisions)
  ultimately show "let ws1 = ?ws1; ws2 = foldl (execute_node handler fp orch ctx) ws1 after
           in executeGraphWith handler fp orch graphId ctx
                = Inr (orch\<lparr>graphs := AList.update graphId (graph\<lparr>nodes := fst ws2\<rparr>) (graphs orch)\<rparr>,
                       snd ws2)
              \<and> (\<exists>new. snd ws2 = snd ws1 @ new)"
    unfolding Let_def by blast
next
  assume "map_of (graphs orch) graphId = Some graph \<and> executionOrder graph = before @ nodeId # after
        \<and> map_of (fst (foldl (execute_node handler fp orch ctx) (nodes graph, []) before)) nodeId
              = Some node
        \<and> handler (node\<lparr>status := Processing\<rparr>) ctx
              (snd (foldl (execute_node handler fp orch ctx) (nodes graph, []) before)) = Inr res
        \<and> (quantumResistant (swarmConfig orch) \<and> qdagInstance orch \<longrightarrow> (\<exists>f. fp res = Inr f))"
  then have "map_of (graphs orch) graphId = Some graph"
    and "executionOrder graph = before @ nodeId # after"
    and "map_of (fst (foldl (execute_node handler fp orch ctx) (nodes graph, []) before)) nodeId
           = Some node"
    and "handler (node\<lparr>status := Processing\<rparr>) ctx
           (snd (foldl (execute_node handler fp orch ctx) (nodes graph, []) before)) = Inr res"
    and "quantumResistant (swarmConfig orch) \<and> qdagInstance orch \<longrightarrow> (\<exists>f. fp res = Inr f)"
    by blast+
  then show "\<exists>orch' new. executeGraphWith handler fp orch graphId ctx
             = Inr (orch', snd (foldl (execute_node handler fp orch ctx) (nodes graph, []) before)
                            @ [res] @ new)"
    by (rule executeGraphWith_appends)
next
  assume "map_of (graphs orch) graphId = Some graph"
  then show "\<exists>orch' graph' ds. executeGraphWith handler fp orch graphId ctx = Inr (orch', ds)
               \<and> map_of (graphs orch') graphId = Some graph'
               \<and> map fst (nodes graph') = map fst (nodes graph)
               \<and> (\<forall>n \<in> set (executionOrder graph). \<forall>node'. map_of (nodes graph') n = Some node' \<longrightarrow>
                      status node' = Completed \<or> status node' = Failed)"
    by (rule executeGraphWith_returns)
next
  from swarm_processRequestWith_returns [of handler fp uuid clock orch req]
  show "\<exists>orch' res. swarm_processRequestWith handler fp uuid clock orch req = Some (Inr (orch', res))"
    by blast
qed

lemma question_node_fields:
  "ntype (question_node i q) = Question" "content (question_node i q) = q"
  "node_metadata (question_node i q) = None"
  by (simp_all add: question_node_def)

lemma answer_a:
  "processQuestion (question_node ''a'' ''Can this fail?''\<lparr>status := Processing\<rparr>)
     urgent_context = answer_result (JStr ''Unable to process question'') 0.3"
  by code_simp

lemma answer_b:
  "processQuestion (question_node ''b'' ''What is the urgency level?''\<lparr>status := Processing\<rparr>)
     urgent_context = answer_result (JStr ''high'') 0.95"
  by code_simp

lemma answer_c:
  "processQuestion (question_node ''c'' ''What is the estimated resolution time?''\<lparr>status := Processing\<rparr>)
     urgent_context = answer_result (JStr ''Unable to process question'') 0.3"
  by code_simp

lemma flaky_run:
  "node_statuses (executeGraphWith (flaky_handler fingerprinting_orchestrator) picky_fingerprint
       fingerprinting_orchestrator ''req-1'' urgent_context) ''req-1''
     = [(''a'', Failed), (''b'', Failed), (''c'', Completed)]
   \<and> returned_decisions (executeGraphWith (flaky_handler fingerprinting_orchestrator) picky_fingerprint
       fingerprinting_orchestrator ''req-1'' urgent_context)
     = [answer_result (JStr ''high'') 0.95, answer_result (JStr ''Unable to process question'') 0.3]"
  by (simp add: node_statuses_def graph_nodes_of_def returned_decisions_def
      executeGraphWith_def fingerprinting_orchestrator_def walk_graph_def execute_node_def
      flaky_handler_def picky_fingerprint_def
      repository_handler_def processNode_def question_node_fields answer_a answer_b answer_c
      answer_result_def empty_result_def)

theorem node_failure_is_local_witness:
  "map_of (nodes walk_graph) ''a'' = Some (question_node ''a'' ''Can this fail?'')
   \<and> flaky_handler fingerprinting_orchestrator
        (question_node ''a'' ''Can this fail?''\<lparr>status := Processing\<rparr>) urgent_context []
       = Inl (Error ''handler failed'')
   \<and> execute_node (flaky_handler fingerprinting_orchestrator) picky_fingerprint
        fingerprinting_orchestrator urgent_context (nodes walk_graph, []) ''a''
       = (AList.update ''a'' (question_node ''a'' ''Can this fail?''\<lparr>status := Failed\<rparr>)
            (nodes walk_graph), [])
   \<and> map_of (nodes walk_graph) ''b'' = Some (question_node ''b'' ''What is the urgency level?'')
   \<and> flaky_handler fingerprinting_orchestrator
        (question_node ''b'' ''What is the urgency level?''\<lparr>status := Processing\<rparr>) urgent_context []
       = Inr (answer_result (JStr ''high'') 0.95)
   \<and> quantumResistant (swarmConfig fingerprinting_orchestrator)
   \<and> qdagInstance fingerprinting_orchestrator
   \<and> picky_fingerprint (answer_result (JStr ''high'') 0.95) = Inl (Error ''QuDAG node unreachable'')
   \<and> (\<exists>node'. map_of (fst (execute_node (flaky_handler fingerprinting_orchestrator) picky_fingerprint
                    fingerprinting_orchestrator urgent_context (nodes walk_graph, []) ''b'')) ''b''
                = Some node' \<and> status node' = Failed)
   \<and> map_of (nodes walk_graph) ''c'' = Some (question_node ''c'' ''What is the estimated resolution time?'')
   \<and> flaky_handler fingerprinting_orchestrator
        (question_node ''c'' ''What is the estimated resolution time?''\<lparr>status := Processing\<rparr>)
        urgent_context []
       = Inr (answer_result (JStr ''Unable to process question'') 0.3)
   \<and> picky_fingerprint (answer_result (JStr ''Unable to process question'') 0.3) = Inr (JStr ''fp'')
   \<and> (\<exists>node'. execute_node (flaky_handler fingerprinting_orchestrator) picky_fingerprint
                 fingerprinting_orchestrator urgent_context (nodes walk_graph, []) ''c''
                = (AList.update ''c'' node' (nodes walk_graph),
                   [answer_result (JStr ''Unable to process question'') 0.3])
              \<and> status node' = Completed
              \<and> result node' = Some (answer_result (JStr ''Unable to process question'') 0.3))
   \<and> map_of (graphs fingerprinting_orchestrator) ''req-1'' = Some walk_graph
   \<and> executionOrder walk_graph = [''a''] @ ''b'' # [''c'']
   \<and> returned_decisions (executeGraphWith (flaky_handler fingerprinting_orchestrator) picky_fingerprint
         fingerprinting_orchestrator ''req-1'' urgent_context)
       = snd (foldl (execute_node (flaky_handler fingerprinting_orchestrator) picky_fingerprint
                       fingerprinting_orchestrator urgent_context)
                (execute_node (flaky_handler fingerprinting_orchestrator) picky_fingerprint
                   fingerprinting_orchestrator urgent_context
                   (foldl (execute_node (flaky_handler fingerprinting_orchestrator) picky_fingerprint
                             fingerprinting_orchestrator urgent_context)
                      (nodes walk_graph, []) [''a'']) ''b'')
                [''c''])
   \<and> executionOrder walk_graph = [''a'', ''b''] @ ''c'' # []
   \<and> map_of (fst (foldl (execute_node (flaky_handler fingerprinting_orchestrator) picky_fingerprint
                          fingerprinting_orchestrator urgent_context)
                   (nodes walk_graph, []) [''a'', ''b''])) ''c''
       = Some (question_node ''c'' ''What is the estimated resolution time?'')
   \<and> snd (foldl (execute_node (flaky_handler fingerprinting_orchestrator) picky_fingerprint
                  fingerprinting_orchestrator urgent_context)
           (nodes walk_graph, []) [''a'', ''b''])
       = [answer_result (JStr ''high'') 0.95]
   \<and> flaky_handler fingerprinting_orchestrator
        (question_node ''c'' ''What is the estimated resolution time?''\<lparr>status := Processing\<rparr>)
        urgent_context [answer_result (JStr ''high'') 0.95]
       = Inr (answer_result (JStr ''Unable to process question'') 0.3)
   \<and> (\<exists>orch' new. executeGraphWith (flaky_handler fingerprinting_orchestrator) picky_fingerprint
                     fingerprinting_orchestrator ''req-1'' urgent_context
                   = Inr (orch', [answer_result (JStr ''high'') 0.95]
                                  @ [answer_result (JStr ''Unable to process question'') 0.3] @ new))
   \<and> node_statuses (executeGraphWith (flaky_handler fingerprinting_orchestrator) picky_fingerprint
         fingerprinting_orchestrator ''req-1'' urgent_context) ''req-1''
       = [(''a'', Failed), (''b'', Failed), (''c'', Completed)]
   \<and> returned_decisions (executeGraphWith (flaky_handler fingerprinting_orchestrator) picky_fingerprint
         fingerprinting_orchestrator ''req-1'' urgent_context)
       = [answer_result (JStr ''high'') 0.95, answer_result (JStr ''Unable to process question'') 0.3]"
proof -
  let ?h = "flaky_handler fingerprinting_orchestrator"
  let ?a = "question_node ''a'' ''Can this fail?''"
  let ?b = "question_node ''b'' ''What is the urgency level?''"
  let ?c = "question_node ''c'' ''What is the estimated resolution time?''"
  let ?res = "answer_result (JStr ''high'') 0.95"
  let ?unable = "answer_result (JStr ''Unable to process question'') 0.3"
  let ?step = "execute_node ?h picky_fingerprint fingerprinting_orchestrator urgent_context"
  have a1: "map_of (fst (nodes walk_graph, [] :: node_result list)) ''a'' = Some ?a"
    by (simp add: walk_graph_def)
  have a2: "?h (?a\<lparr>status := Processing\<rparr>) urgent_context (snd (nodes walk_graph, [])) = Inl (Error ''handler failed'')"
    by (simp add: flaky_handler_def question_node_def)
  have b1: "map_of (fst (nodes walk_graph, [] :: node_result list)) ''b'' = Some ?b"
    by (simp add: walk_graph_def)
  have b2: "?h (?b\<lparr>status := Processing\<rparr>) urgent_context (snd (nodes walk_graph, [])) = Inr ?res"
    by (simp add: flaky_handler_def repository_handler_def processNode_def question_node_fields answer_b)
  have b3: "quantumResistant (swarmConfig fingerprinting_orchestrator)"
    "qdagInstance fingerprinting_orchestrator"
    by (simp_all add: fingerprinting_orchestrator_def)
  have b4: "picky_fingerprint ?res = Inl (Error ''QuDAG node unreachable'')"
    by (simp add: picky_fingerprint_def answer_result_def empty_result_def)
  have c1: "map_of (fst (nodes walk_graph, [] :: node_result list)) ''c'' = Some ?c"
    by (simp add: walk_graph_def)
  have c2: "?h (?c\<lparr>status := Processing\<rparr>) urgent_context (snd (nodes walk_graph, [])) = Inr ?unable"
    by (simp add: flaky_handler_def repository_handler_def processNode_def question_node_fields answer_c)
  have c3: "picky_fingerprint ?unable = Inr (JStr ''fp'')"
    by (simp add: picky_fingerprint_def answer_result_def empty_result_def)
  have g: "map_of (graphs fingerprinting_orchestrator) ''req-1'' = Some walk_graph"
    by (simp add: fingerprinting_orchestrator_def)
  have ord: "executionOrder walk_graph = [''a''] @ ''b'' # [''c'']"
    by (simp add: walk_graph_def)
  note inst_a = node_failure_is_local [where handler = ?h and fp = picky_fingerprint
      and orch = fingerprinting_orchestrator and ctx = urgent_context
      and ws = "(nodes walk_graph, [])" and e = "Error ''handler failed''" and nodeId = "''a''"
      and node = ?a]
  from inst_a a1 a2 have sa:
    "?step (nodes walk_graph, []) ''a''
       = (AList.update ''a'' (?a\<lparr>status := Failed\<rparr>) (nodes walk_graph), [])"
    by simp
  note inst_b = node_failure_is_local [where handler = ?h and fp = picky_fingerprint
      and orch = fingerprinting_orchestrator and ctx = urgent_context
      and ws = "(nodes walk_graph, [])" and e = "Error ''QuDAG node unreachable''" and nodeId = "''b''"
      and node = ?b and res = ?res]
  from inst_b b1 b2 b3 b4 have sb:
    "\<exists>node'. map_of (fst (?step (nodes walk_graph, []) ''b'')) ''b'' = Some node' \<and> status node' = Failed"
    by blast
  note inst_c = node_failure_is_local [where handler = ?h and fp = picky_fingerprint
      and orch = fingerprinting_orchestrator and ctx = urgent_context
      and ws = "(nodes walk_graph, [])" and nodeId = "''c''" and node = ?c and res = ?unable]
  from c3 have c3': "quantumResistant (swarmConfig fingerprinting_orchestrator)
      \<and> qdagInstance fingerprinting_orchestrator \<longrightarrow> (\<exists>f. picky_fingerprint ?unable = Inr f)"
    by simp
  from inst_c c1 c2 c3' have sc0:
    "\<exists>node'. ?step (nodes walk_graph, []) ''c''
               = (AList.update ''c'' node' (fst (nodes walk_graph, [] :: node_result list)),
                  snd (nodes walk_graph, [] :: node_result list) @ [?unable])
       \<and> status node' = Completed \<and> result node' = Some ?unable"
    by blast
  then have sc:
    "\<exists>node'. ?step (nodes walk_graph, []) ''c'' = (AList.update ''c'' node' (nodes walk_graph), [?unable])
       \<and> status node' = Completed \<and> result node' = Some ?unable"
    by simp
  note inst_w = node_failure_is_local [where handler = ?h and fp = picky_fingerprint
      and orch = fingerprinting_orchestrator and ctx = urgent_context
      and graphId = "''req-1''" and graph = walk_graph and before = "[''a'']" and nodeId = "''b''"
      and after = "[''c'']"]
  from inst_w g ord obtain orch' where
    "executeGraphWith ?h picky_fingerprint fingerprinting_orchestrator ''req-1'' urgent_context
       = Inr (orch', snd (foldl ?step (?step (foldl ?step (nodes walk_graph, []) [''a'']) ''b'') [''c'']))"
    unfolding Let_def by blast
  then have sw:
    "returned_decisions (executeGraphWith ?h picky_fingerprint fingerprinting_orchestrator ''req-1''
        urgent_context)
       = snd (foldl ?step (?step (foldl ?step (nodes walk_graph, []) [''a'']) ''b'') [''c''])"
    by (simp add: returned_decisions_def)
  let ?ab = "foldl ?step (nodes walk_graph, []) [''a'', ''b'']"
  have ord2: "executionOrder walk_graph = [''a'', ''b''] @ ''c'' # []"
    by (simp add: walk_graph_def)
  have p1: "map_of (fst ?ab) ''c'' = Some ?c" and p2: "snd ?ab = [?res]"
    by (simp_all add: walk_graph_def execute_node_def flaky_handler_def picky_fingerprint_def
        fingerprinting_orchestrator_def repository_handler_def processNode_def
        question_node_fields answer_a answer_b answer_result_def empty_result_def)
  have p3: "?h (?c\<lparr>status := Processing\<rparr>) urgent_context [?res] = Inr ?unable"
    by (simp add: flaky_handler_def repository_handler_def processNode_def question_node_fields answer_c)
  note inst_k = node_failure_is_local [where handler = ?h and fp = picky_fingerprint
      and orch = fingerprinting_orchestrator and ctx = urgent_context
      and graphId = "''req-1''" and graph = walk_graph and before = "[''a'', ''b'']"
      and nodeId = "''c''" and after = "[]" and node = ?c and res = ?unable]
  from p2 p3 have p3': "?h (?c\<lparr>status := Processing\<rparr>) urgent_context (snd ?ab) = Inr ?unable"
    by simp
  from inst_k g ord2 p1 p3' c3' have
    "\<exists>orch' new. executeGraphWith ?h picky_fingerprint fingerprinting_orchestrator ''req-1''
        urgent_context = Inr (orch', snd ?ab @ [?unable] @ new)"
    by blast
  with p2 have sk:
    "\<exists>orch' new. executeGraphWith ?h picky_fingerprint fingerprinting_orchestrator ''req-1''
        urgent_context = Inr (orch', [?res] @ [?unable] @ new)"
    by simp
  from a1 a2 b1 b2 c1 c2 have pre: "map_of (nodes walk_graph) ''a'' = Some ?a"
    "?h (?a\<lparr>status := Processing\<rparr>) urgent_context [] = Inl (Error ''handler failed'')"
    "map_of (nodes walk_graph) ''b'' = Some ?b"
    "?h (?b\<lparr>status := Processing\<rparr>) urgent_context [] = Inr ?res"
    "map_of (nodes walk_graph) ''c'' = Some ?c"
    "?h (?c\<lparr>status := Processing\<rparr>) urgent_context [] = Inr ?unable"
    by simp_all
  show ?thesis
    using pre sa sb sc b3 b4 c3 g ord sw ord2 p1 p2 p3 sk flaky_run by blast
qed

text \<open>
  Claim C9 as stated fails: with fingerprinting active and the fingerprint call failing,
  every node ends as \<open>failed\<close> and yet its result is in the decisions list.
\<close>

theorem failed_node_result_kept_counterexample:
  "node_statuses (executeGraph failing_fingerprint fingerprinting_orchestrator ''req-1'' urgent_context) ''req-1''
     = [(''a'', Failed), (''b'', Failed), (''c'', Failed)]
   \<and> returned_decisions (executeGraph failing_fingerprint fingerprinting_orchestrator ''req-1'' urgent_context)
     = [answer_result (JStr ''Unable to process question'') 0.3, answer_result (JStr ''high'') 0.95,
        answer_result (JStr ''Unable to process question'') 0.3]"
  by (simp add: node_statuses_def graph_nodes_of_def returned_decisions_def executeGraph_def
      executeGraphWith_def fingerprinting_orchestrator_def walk_graph_def execute_node_def
      repository_handler_def processNode_def question_node_fields answer_a answer_b answer_c
      failing_fingerprint_def)

end
